theory Spec2Isabelle
  imports Main "HOL-Library.Sublist" "HOL-Library.AList"
begin

section \<open>Python strings\<close>

text \<open>
  A Python \<open>str\<close> is a sequence of Unicode code points: \<open>len\<close> counts code points and
  \<open>k in s\<close> is a search for a contiguous run of code points. A code point is a natural
  number here, a string a list of them; \<open>asc\<close> reads an ASCII literal. The substring test
  \<open>k in s\<close> is \<^const>\<open>sublist\<close>, \<open>s.startswith(k)\<close> is \<^const>\<open>prefix\<close>.
\<close>

type_synonym uchar = nat
type_synonym ustr = "uchar list"

definition asc :: "string \<Rightarrow> ustr" where
  "asc s = map of_char s"

text \<open>The code points for which \<open>str.isspace\<close> holds; \<open>strip()\<close> and \<open>split()\<close> use them.\<close>

definition isspace :: "uchar \<Rightarrow> bool" where
  "isspace c =
     ((9 \<le> c \<and> c \<le> 13) \<or> (28 \<le> c \<and> c \<le> 32) \<or> c = 133 \<or> c = 160 \<or> c = 5760
      \<or> (8192 \<le> c \<and> c \<le> 8202) \<or> c = 8232 \<or> c = 8233 \<or> c = 8239 \<or> c = 8287
      \<or> c = 12288)"

definition strip :: "ustr \<Rightarrow> ustr" where
  "strip s = rev (dropWhile isspace (rev (dropWhile isspace s)))"

text \<open>\<open>s.split()\<close>: the maximal runs of non-space code points, in order.\<close>

fun split_acc :: "ustr \<Rightarrow> ustr \<Rightarrow> ustr list" where
  "split_acc cur [] = (if cur = [] then [] else [cur])"
| "split_acc cur (c # cs) =
     (if isspace c then (if cur = [] then split_acc [] cs else cur # split_acc [] cs)
      else split_acc (cur @ [c]) cs)"

definition split_ws :: "ustr \<Rightarrow> ustr list" where
  "split_ws s = split_acc [] s"

text \<open>\<open>s.split(sep)\<close> for a one-character separator: never empty.\<close>

fun split_on_acc :: "uchar \<Rightarrow> ustr \<Rightarrow> ustr \<Rightarrow> ustr list" where
  "split_on_acc sep cur [] = [cur]"
| "split_on_acc sep cur (c # cs) =
     (if c = sep then cur # split_on_acc sep [] cs else split_on_acc sep (cur @ [c]) cs)"

definition split_on :: "uchar \<Rightarrow> ustr \<Rightarrow> ustr list" where
  "split_on sep s = split_on_acc sep [] s"

text \<open>\<open>' '.join(xs)\<close>.\<close>

fun join_sp :: "ustr list \<Rightarrow> ustr" where
  "join_sp [] = []"
| "join_sp [x] = x"
| "join_sp (x # y # ys) = x @ 32 # join_sp (y # ys)"

text \<open>\<open>any(k in s for k in ks)\<close>.\<close>

definition any_in :: "ustr list \<Rightarrow> ustr \<Rightarrow> bool" where
  "any_in ks s = list_ex (\<lambda>k. sublist k s) ks"

text \<open>The exceptions the modelled code can raise.\<close>

datatype py_error = IndexError | KeyError | AttributeError | TypeError

text \<open>\<open>xs[0]\<close>.\<close>

definition first :: "'a list \<Rightarrow> py_error + 'a" where
  "first xs = (case xs of [] \<Rightarrow> Inl IndexError | x # _ \<Rightarrow> Inr x)"

section \<open>fetcher.py: the catalog extractor\<close>

subsection \<open>normalize\_name\<close>

definition is_alnum :: "uchar \<Rightarrow> bool" where
  "is_alnum c = ((65 \<le> c \<and> c \<le> 90) \<or> (97 \<le> c \<and> c \<le> 122) \<or> (48 \<le> c \<and> c \<le> 57))"

text \<open>\<open>re.match(r'([A-Za-z0-9]+)', raw)\<close>: the leading run, \<open>None\<close> when it is empty.\<close>

definition re_match_alnum :: "ustr \<Rightarrow> ustr option" where
  "re_match_alnum raw = (let m = takeWhile is_alnum raw in if m = [] then None else Some m)"

definition normalize_name :: "ustr \<Rightarrow> py_error + ustr" where
  "normalize_name raw0 =
     (let raw = strip raw0 in
      case re_match_alnum raw of
        Some m \<Rightarrow> Inr m
      | None \<Rightarrow> if raw \<noteq> [] then first (split_ws raw) else Inr raw)"

subsection \<open>parse\_overview\<close>

text \<open>
  The summaries are Python dictionaries with the fixed keys \<open>name\<close>, \<open>display_name\<close>,
  \<open>url\<close>, \<open>description\<close>; \<open>url\<close> is a string or \<open>None\<close>.
\<close>

record component_summary =
  name :: ustr
  display_name :: ustr
  url :: "ustr option"
  description :: ustr

text \<open>
  The markup reaches the extractor through the selections BeautifulSoup makes on it. For
  the overview page these are, for each \<open>.components-overview-card\<close>: the stripped text
  of its first \<open>.components-overview-title\<close> (\<open>None\<close> without one), the \<open>href\<close>
  attribute of its nearest ancestor anchor (\<open>None\<close> without an ancestor anchor,
  \<open>Some None\<close> for an anchor without the attribute) and the \<open>href\<close> of its first
  descendant \<open>a[href]\<close>; and for each menu anchor: the stripped texts of its \<open>span\<close>
  descendants, its own stripped text and its \<open>href\<close>.
\<close>

record overview_card =
  card_title :: "ustr option"
  parent_anchor :: "ustr option option"
  inner_anchor :: "ustr option"

record menu_anchor =
  span_texts :: "ustr list"
  anchor_text :: ustr
  anchor_href :: "ustr option"

record overview_page =
  cards :: "overview_card list"
  menu_anchors :: "menu_anchor list"

definition BASE_URL :: ustr where
  "BASE_URL = asc ''https://4x.ant.design''"

text \<open>\<open>BASE_URL + href if href and href.startswith('/') else href\<close>.\<close>

definition absolute_url :: "ustr option \<Rightarrow> ustr option" where
  "absolute_url href =
     (case href of
        None \<Rightarrow> None
      | Some h \<Rightarrow> if h \<noteq> [] \<and> prefix (asc ''/'') h then Some (BASE_URL @ h) else Some h)"

text \<open>
  \<open>card.find_parent('a') or card.select_one('a[href]')\<close>, then the \<open>href\<close> of that element
  when it has one (an element is always truthy).
\<close>

definition card_href :: "overview_card \<Rightarrow> ustr option" where
  "card_href crd =
     (case parent_anchor crd of
        Some a \<Rightarrow> a
      | None \<Rightarrow> inner_anchor crd)"

fun card_components :: "overview_card list \<Rightarrow> py_error + component_summary list" where
  "card_components [] = Inr []"
| "card_components (crd # rest) =
     (case card_title crd of
        None \<Rightarrow> card_components rest
      | Some full_title \<Rightarrow>
          (case normalize_name full_title of
             Inl e \<Rightarrow> Inl e
           | Inr nm \<Rightarrow>
               (case card_components rest of
                  Inl e \<Rightarrow> Inl e
                | Inr cs \<Rightarrow>
                    Inr (\<lparr>name = nm, display_name = full_title,
                          url = absolute_url (card_href crd), description = []\<rparr> # cs))))"

text \<open>\<open>''.join(span texts) or li.get_text(strip=True)\<close>.\<close>

definition spans_text :: "menu_anchor \<Rightarrow> ustr" where
  "spans_text li = (if concat (span_texts li) \<noteq> [] then concat (span_texts li) else anchor_text li)"

fun menu_components :: "menu_anchor list \<Rightarrow> py_error + component_summary list" where
  "menu_components [] = Inr []"
| "menu_components (li # rest) =
     (case normalize_name (spans_text li) of
        Inl e \<Rightarrow> Inl e
      | Inr eng_name \<Rightarrow>
          (case menu_components rest of
             Inl e \<Rightarrow> Inl e
           | Inr cs \<Rightarrow>
               Inr (\<lparr>name = eng_name, display_name = spans_text li,
                     url = absolute_url (anchor_href li), description = []\<rparr> # cs)))"

definition is_valid :: "component_summary \<Rightarrow> bool" where
  "is_valid c =
     (case url c of
        None \<Rightarrow> False
      | Some u \<Rightarrow>
          if u = [] \<or> \<not> sublist (asc ''/components/'') u then False
          else if \<not> (prefix (asc ''http://'') u \<or> prefix (asc ''https://'') u) then False
          else True)"

text \<open>
  The dictionary \<open>cleaned\<close> keeps its keys in insertion order, and an assignment to a key
  already present replaces the value where it stands: an association list under
  \<^const>\<open>AList.update\<close>. \<open>str.lower\<close> is the Unicode lower-casing of the Python
  library; it is the parameter \<open>lower\<close> of everything that calls it.
\<close>

type_synonym catalog_dict = "(ustr \<times> component_summary) list"

definition clean_step :: "(ustr \<Rightarrow> ustr) \<Rightarrow> catalog_dict \<Rightarrow> component_summary \<Rightarrow> catalog_dict" where
  "clean_step lower cleaned c =
     (if \<not> is_valid c then cleaned
      else
        let key = lower (name c) in
        case map_of cleaned key of
          None \<Rightarrow> AList.update key c cleaned
        | Some old \<Rightarrow>
            if length (display_name c) > length (display_name old)
            then AList.update key c cleaned
            else cleaned)"

definition clean_components :: "(ustr \<Rightarrow> ustr) \<Rightarrow> component_summary list \<Rightarrow> component_summary list" where
  "clean_components lower components = map snd (foldl (clean_step lower) [] components)"

definition parse_overview :: "(ustr \<Rightarrow> ustr) \<Rightarrow> overview_page \<Rightarrow> py_error + component_summary list" where
  "parse_overview lower page =
     (case card_components (cards page) of
        Inl e \<Rightarrow> Inl e
      | Inr from_cards \<Rightarrow>
          (case menu_components (menu_anchors page) of
             Inl e \<Rightarrow> Inl e
           | Inr from_menu \<Rightarrow> Inr (clean_components lower (from_cards @ from_menu))))"

section \<open>fetcher.py: the detail extractor\<close>

subsection \<open>Values and dictionaries\<close>

text \<open>
  The rows are loosely typed dictionaries. A value is a string, a list of strings (the
  cells of a positional row), a boolean or a dictionary; a dictionary is an association
  list in insertion order.
\<close>

datatype pyval = Str ustr | StrList "ustr list" | Bool bool | Dict "(ustr \<times> pyval) list"

type_synonym pydict = "(ustr \<times> pyval) list"

text \<open>Truthiness, \<open>len\<close> and indexing by a number, with the exceptions Python raises.\<close>

fun truthy :: "pyval \<Rightarrow> bool" where
  "truthy (Str s) = (s \<noteq> [])"
| "truthy (StrList xs) = (xs \<noteq> [])"
| "truthy (Bool b) = b"
| "truthy (Dict d) = (d \<noteq> [])"

fun py_len :: "pyval \<Rightarrow> py_error + nat" where
  "py_len (Str s) = Inr (length s)"
| "py_len (StrList xs) = Inr (length xs)"
| "py_len (Bool b) = Inl TypeError"
| "py_len (Dict d) = Inr (length d)"

fun py_index :: "pyval \<Rightarrow> nat \<Rightarrow> py_error + pyval" where
  "py_index (Str s) i = (if i < length s then Inr (Str [s ! i]) else Inl IndexError)"
| "py_index (StrList xs) i = (if i < length xs then Inr (Str (xs ! i)) else Inl IndexError)"
| "py_index (Bool b) i = Inl TypeError"
| "py_index (Dict d) i = Inl KeyError"

subsection \<open>classify\<close>

datatype table_kind = Events | Methods | Props | Other

definition event_keywords :: "ustr list" where
  "event_keywords = [[20107, 20214], [22238, 35843], asc ''listener'', asc ''on'']"

definition method_keywords :: "ustr list" where
  "method_keywords = [[26041, 27861], asc ''method'', [20989, 25968]]"

definition prop_keywords :: "ustr list" where
  "prop_keywords =
     [[21442, 25968], [23646, 24615], [23646, 24615, 21517], [21517, 31216],
      [37197, 32622, 39033], [21442, 25968, 21517], [23383, 27573], asc ''Prop'',
      asc ''Property'', [36873, 39033], [21487, 37197, 32622, 39033]]"

definition api_keywords_1 :: "ustr list" where
  "api_keywords_1 =
     [[31867, 22411], [40664, 35748], [24517, 22635], [24517, 36873], [21487, 36873, 20540]]"

definition api_keywords_2 :: "ustr list" where
  "api_keywords_2 = [[31867, 22411], [40664, 35748], [21442, 25968]]"

definition classify :: "ustr list \<Rightarrow> table_kind" where
  "classify hdr =
     (let h_join = join_sp hdr in
      if any_in event_keywords h_join then Events
      else if any_in method_keywords h_join then Methods
      else if any_in prop_keywords h_join then Props
      else if any_in api_keywords_1 h_join \<and> sublist (asc ''API'') h_join then Props
      else if sublist (asc ''API'') h_join \<and> any_in api_keywords_2 h_join then Props
      else Other)"

subsection \<open>Row extraction\<close>

text \<open>
  Of a table the extractor sees the stripped texts of its \<open>thead tr th\<close> cells and, for
  each \<open>tbody tr\<close>, the texts of its \<open>td\<close> cells.
\<close>

record table_el =
  th_texts :: "ustr list"
  tr_cells :: "ustr list list"

record table_obj =
  header :: "ustr list"
  rows :: "pydict list"

text \<open>
  \<open>{header[i]: cells[i] for i in range(len(header))}\<close>: a repeated label keeps its first
  position and its last cell.
\<close>

definition dict_of :: "(ustr \<times> pyval) list \<Rightarrow> pydict" where
  "dict_of kvs = foldl (\<lambda>d (k, v). AList.update k v d) [] kvs"

definition row_dict :: "ustr list \<Rightarrow> ustr list \<Rightarrow> pydict" where
  "row_dict hdr cells =
     (if hdr \<noteq> [] \<and> length hdr = length cells
      then dict_of (zip hdr (map Str cells))
      else [(asc ''cells'', StrList cells)])"

definition rows_struct :: "ustr list \<Rightarrow> ustr list list \<Rightarrow> pydict list" where
  "rows_struct hdr trs = map (row_dict hdr) (filter (\<lambda>cells. cells \<noteq> []) trs)"

definition table_object :: "table_el \<Rightarrow> table_obj" where
  "table_object tbl = \<lparr>header = th_texts tbl, rows = rows_struct (th_texts tbl) (tr_cells tbl)\<rparr>"

subsection \<open>normalize\_row\<close>

definition header_synonyms :: "(ustr \<times> ustr) list" where
  "header_synonyms =
     [([21442, 25968], asc ''name''), ([23646, 24615], asc ''name''),
      ([23646, 24615, 21517], asc ''name''), ([21517, 31216], asc ''name''),
      ([37197, 32622, 39033], asc ''name''), ([21442, 25968, 21517], asc ''name''),
      ([23383, 27573], asc ''name''), (asc ''Prop'', asc ''name''),
      (asc ''Property'', asc ''name''), ([21487, 37197, 32622, 39033], asc ''name''),
      ([35828, 26126], asc ''description''), ([25551, 36848], asc ''description''),
      ([22791, 27880], asc ''description''), ([21547, 20041], asc ''description''),
      ([31867, 22411], asc ''type''), (asc ''Type'', asc ''type''),
      ([25968, 25454, 31867, 22411], asc ''type''),
      ([40664, 35748, 20540], asc ''default''), ([40664, 35748], asc ''default''),
      ([32570, 30465, 20540], asc ''default''),
      ([29256, 26412], asc ''version''), (asc ''Since'', asc ''version''),
      ([21487, 36873, 20540], asc ''options''), ([36873, 39033], asc ''options''),
      ([21487, 36873], asc ''options''), ([26522, 20030], asc ''options''),
      ([26159, 21542, 24517, 22635], asc ''required''), ([24517, 22635], asc ''required''),
      ([24517, 36873], asc ''required''), ([26159, 21542, 24517, 36873], asc ''required'')]"

text \<open>\<open>header_synonyms.get(h, h)\<close>.\<close>

definition synonym :: "ustr \<Rightarrow> ustr" where
  "synonym h = (case map_of header_synonyms h of Some k \<Rightarrow> k | None \<Rightarrow> h)"

text \<open>The loop over \<open>enumerate(header)\<close> of a row that has the key \<open>cells\<close>.\<close>

fun fill_from_cells :: "pyval \<Rightarrow> nat \<Rightarrow> ustr list \<Rightarrow> pydict \<Rightarrow> py_error + pydict" where
  "fill_from_cells cells i [] normalized = Inr normalized"
| "fill_from_cells cells i (h # hs) normalized =
     (case py_len cells of
        Inl e \<Rightarrow> Inl e
      | Inr n \<Rightarrow>
          if i < n then
            (case py_index cells i of
               Inl e \<Rightarrow> Inl e
             | Inr v \<Rightarrow> fill_from_cells cells (i + 1) hs (AList.update (synonym h) v normalized))
          else fill_from_cells cells (i + 1) hs normalized)"

text \<open>The loop over \<open>row.items()\<close> of a row without it.\<close>

definition fill_from_items :: "pydict \<Rightarrow> pydict \<Rightarrow> pydict" where
  "fill_from_items row normalized = foldl (\<lambda>n (k, v). AList.update (synonym k) v n) normalized row"

definition affirmative_tokens :: "ustr list" where
  "affirmative_tokens = [[26159], [24517, 22635], [24517, 36873], asc ''true'', [24517, 39035]]"

definition negative_tokens :: "ustr list" where
  "negative_tokens = [[21542], [21487, 36873], asc ''false'', [36873, 22635]]"

text \<open>\<open>name.split('\n')[0].strip()\<close>, for a truthy \<open>name\<close>; only a string has \<open>split\<close>.\<close>

definition clean_name :: "pydict \<Rightarrow> py_error + pydict" where
  "clean_name normalized =
     (case map_of normalized (asc ''name'') of
        None \<Rightarrow> Inr normalized
      | Some nm \<Rightarrow>
          if truthy nm then
            (case nm of
               Str s \<Rightarrow>
                 (case first (split_on 10 s) of
                    Inl e \<Rightarrow> Inl e
                  | Inr line \<Rightarrow> Inr (AList.update (asc ''name'') (Str (strip line)) normalized))
             | _ \<Rightarrow> Inl AttributeError)
          else Inr normalized)"

definition normalize_required :: "pydict \<Rightarrow> pydict" where
  "normalize_required normalized =
     (case map_of normalized (asc ''required'') of
        Some (Str req_val) \<Rightarrow>
          if any_in affirmative_tokens req_val
          then AList.update (asc ''required'') (Bool True) normalized
          else if any_in negative_tokens req_val
          then AList.update (asc ''required'') (Bool False) normalized
          else normalized
      | _ \<Rightarrow> normalized)"

definition normalize_row :: "pydict \<Rightarrow> ustr list \<Rightarrow> py_error + pydict" where
  "normalize_row row hdr =
     (let normalized = [(asc ''raw'', Dict row)] in
      case (case map_of row (asc ''cells'') of
              Some cells \<Rightarrow> fill_from_cells cells 0 hdr normalized
            | None \<Rightarrow> Inr (fill_from_items row normalized)) of
        Inl e \<Rightarrow> Inl e
      | Inr filled \<Rightarrow>
          (case clean_name filled of
             Inl e \<Rightarrow> Inl e
           | Inr named \<Rightarrow> Inr (normalize_required named)))"

subsection \<open>parse\_component\<close>

text \<open>
  Of a component page the extractor sees the stripped text of the first \<open>h1\<close>, the
  stripped texts of the \<open>p\<close> elements, the tables and the texts of the \<open>pre code\<close>
  elements, each in document order.
\<close>

record component_page =
  h1_text :: "ustr option"
  p_texts :: "ustr list"
  tables :: "table_el list"
  code_texts :: "ustr list"

record table_counts =
  count_props :: nat
  count_events :: nat
  count_methods :: nat
  count_other :: nat

text \<open>
  The detail dictionary; \<open>title\<close> and \<open>source_url\<close> are \<open>None\<close> while the key is not set
  (\<open>get_component_detail\<close> sets \<open>source_url\<close>).
\<close>

record component_detail =
  title :: "ustr option"
  intro :: "ustr list"
  props :: "table_obj list"
  events :: "table_obj list"
  methods :: "table_obj list"
  other_tables :: "table_obj list"
  table_summary :: table_counts
  examples :: "ustr list"
  props_flat :: "pydict list"
  source_url :: "ustr option"

definition tables_of_kind :: "table_kind \<Rightarrow> table_obj list \<Rightarrow> table_obj list" where
  "tables_of_kind kind objs = filter (\<lambda>t. classify (header t) = kind) objs"

fun normalize_rows :: "ustr list \<Rightarrow> pydict list \<Rightarrow> py_error + pydict list" where
  "normalize_rows hdr [] = Inr []"
| "normalize_rows hdr (row # rest) =
     (case normalize_row row hdr of
        Inl e \<Rightarrow> Inl e
      | Inr n \<Rightarrow>
          (case normalize_rows hdr rest of
             Inl e \<Rightarrow> Inl e
           | Inr ns \<Rightarrow> Inr (n # ns)))"

fun flatten_props :: "table_obj list \<Rightarrow> py_error + pydict list" where
  "flatten_props [] = Inr []"
| "flatten_props (tbl # rest) =
     (case normalize_rows (header tbl) (rows tbl) of
        Inl e \<Rightarrow> Inl e
      | Inr ns \<Rightarrow>
          (case flatten_props rest of
             Inl e \<Rightarrow> Inl e
           | Inr flat \<Rightarrow> Inr (ns @ flat)))"

definition parse_component :: "component_page \<Rightarrow> py_error + component_detail" where
  "parse_component page =
     (let objs = map table_object (tables page);
          props_tables = tables_of_kind Props objs;
          event_tables = tables_of_kind Events objs;
          method_tables = tables_of_kind Methods objs;
          other = tables_of_kind Other objs
      in case flatten_props props_tables of
           Inl e \<Rightarrow> Inl e
         | Inr flat \<Rightarrow>
             Inr \<lparr>title = h1_text page,
                  intro = filter (\<lambda>t. t \<noteq> []) (take 5 (p_texts page)),
                  props = props_tables,
                  events = event_tables,
                  methods = method_tables,
                  other_tables = other,
                  table_summary = \<lparr>count_props = length props_tables,
                                    count_events = length event_tables,
                                    count_methods = length method_tables,
                                    count_other = length other\<rparr>,
                  examples = filter (\<lambda>t. t \<noteq> []) (code_texts page),
                  props_flat = flat,
                  source_url = None\<rparr>)"

section \<open>fetcher.py: fetching and the corpus exporter\<close>

text \<open>
  An exception as the callers see it: the \<open>FetchError\<close> of \<open>fetch_url\<close> with its
  message, any other exception of the network or file libraries with its message, or one
  of the built-in exceptions raised inside the extractors.
\<close>

datatype exn = FetchError ustr | LibraryError ustr | Raised py_error

text \<open>
  \<open>fetch_url\<close> followed by the markup parser is the environment of the extractors: for
  the overview page and for a component page it returns the selections or raises. The
  argument \<open>force\<close> is used for its truth value only. Writing the export file either
  succeeds or raises; the default export path depends on where the module is installed.
\<close>

datatype json =
  JNull | JBool bool | JNum int | JStr ustr | JArr "json list" | JObj "(ustr \<times> json) list"

record environment =
  fetch_overview :: "bool \<Rightarrow> exn + overview_page"
  fetch_component :: "ustr \<Rightarrow> bool \<Rightarrow> exn + component_page"
  write_export :: "json \<Rightarrow> exn option"
  default_export_path :: ustr

definition build_component_index ::
  "environment \<Rightarrow> (ustr \<Rightarrow> ustr) \<Rightarrow> bool \<Rightarrow> exn + component_summary list" where
  "build_component_index env lower force =
     (case fetch_overview env force of
        Inl e \<Rightarrow> Inl e
      | Inr page \<Rightarrow>
          (case parse_overview lower page of
             Inl e \<Rightarrow> Inl (Raised e)
           | Inr index \<Rightarrow> Inr index))"

text \<open>A URL that is \<open>None\<close> makes \<open>re.sub\<close> in \<open>fetch_url\<close> raise \<open>TypeError\<close>.\<close>

definition get_component_detail ::
  "environment \<Rightarrow> ustr option \<Rightarrow> bool \<Rightarrow> exn + component_detail" where
  "get_component_detail env u force =
     (case u of
        None \<Rightarrow> Inl (Raised TypeError)
      | Some target \<Rightarrow>
          (case fetch_component env target force of
             Inl e \<Rightarrow> Inl e
           | Inr page \<Rightarrow>
               (case parse_component page of
                  Inl e \<Rightarrow> Inl (Raised e)
                | Inr data \<Rightarrow> Inr (data\<lparr>source_url := Some target\<rparr>))))"

text \<open>
  An entry of \<open>all_details\<close>: a detail with the component's name added, or the name with
  the exception whose text is stored under \<open>error\<close>. Only the latter has the key
  \<open>error\<close>.
\<close>

datatype export_entry = DetailEntry ustr component_detail | ErrorEntry ustr exn

definition has_error :: "export_entry \<Rightarrow> bool" where
  "has_error d = (case d of ErrorEntry nm e \<Rightarrow> True | DetailEntry nm data \<Rightarrow> False)"

definition export_entry_of :: "environment \<Rightarrow> bool \<Rightarrow> component_summary \<Rightarrow> export_entry" where
  "export_entry_of env force c =
     (if url c = None \<or> url c = Some []
      then ErrorEntry (name c) (FetchError (asc ''Missing URL''))
      else
        case get_component_detail env (url c) force of
          Inl e \<Rightarrow> ErrorEntry (name c) e
        | Inr detail \<Rightarrow> DetailEntry (name c) detail)"

text \<open>The persisted record (without its time stamp) and the returned summary.\<close>

record export_file =
  file_count :: nat
  file_components :: "export_entry list"

record export_summary =
  filepath :: json
  count :: nat
  errors :: nat

fun json_truthy :: "json \<Rightarrow> bool" where
  "json_truthy JNull = False"
| "json_truthy (JBool b) = b"
| "json_truthy (JNum n) = (n \<noteq> 0)"
| "json_truthy (JStr s) = (s \<noteq> [])"
| "json_truthy (JArr xs) = (xs \<noteq> [])"
| "json_truthy (JObj kvs) = (kvs \<noteq> [])"

definition export_all_components ::
  "environment \<Rightarrow> (ustr \<Rightarrow> ustr) \<Rightarrow> bool \<Rightarrow> json \<Rightarrow> bool \<Rightarrow> exn + export_file \<times> export_summary" where
  "export_all_components env lower force path validate =
     (case build_component_index env lower force of
        Inl e \<Rightarrow> Inl e
      | Inr index \<Rightarrow>
          let collected = map (export_entry_of env force) index;
              all_details = (if validate then filter (\<lambda>d. \<not> has_error d) collected else collected);
              export_path = (if json_truthy path then path else JStr (default_export_path env))
          in case write_export env export_path of
               Some e \<Rightarrow> Inl e
             | None \<Rightarrow>
                 Inr (\<lparr>file_count = length all_details, file_components = all_details\<rparr>,
                      \<lparr>filepath = export_path, count = length all_details,
                        errors = length (filter has_error all_details)\<rparr>))"

section \<open>server.py\<close>

text \<open>
  A request is any decoded JSON value; \<open>None\<close> is \<open>JNull\<close>, and a number matters only
  through its truth value. \<open>d.get(k, default)\<close> needs a dictionary; lists and
  dictionaries cannot be hashed.
\<close>

definition dict_get :: "json \<Rightarrow> ustr \<Rightarrow> json \<Rightarrow> py_error + json" where
  "dict_get d k dflt =
     (case d of
        JObj kvs \<Rightarrow> (case map_of kvs k of Some v \<Rightarrow> Inr v | None \<Rightarrow> Inr dflt)
      | _ \<Rightarrow> Inl AttributeError)"

definition hashable :: "json \<Rightarrow> bool" where
  "hashable v = (case v of JArr xs \<Rightarrow> False | JObj kvs \<Rightarrow> False | _ \<Rightarrow> True)"

definition TOOLS :: "ustr list" where
  "TOOLS = [asc ''list_components'', asc ''get_component'', asc ''search_components'',
            asc ''export_all'', asc ''get_component_props'']"

text \<open>The two module-level caches.\<close>

record server_state =
  index_cache :: "component_summary list option"
  details_cache :: "(ustr option \<times> component_detail) list"

definition ensure_index ::
  "environment \<Rightarrow> (ustr \<Rightarrow> ustr) \<Rightarrow> bool \<Rightarrow> server_state
     \<Rightarrow> (exn + component_summary list) \<times> server_state" where
  "ensure_index env lower force st =
     (case (if force then None else index_cache st) of
        Some index \<Rightarrow> (Inr index, st)
      | None \<Rightarrow>
          (case build_component_index env lower force of
             Inl e \<Rightarrow> (Inl e, st)
           | Inr index \<Rightarrow> (Inr index, st\<lparr>index_cache := Some index\<rparr>)))"

text \<open>The results of the operations, and the structured errors they return.\<close>

datatype tool_error = NameNotProvided | ComponentNotFound json | NotImplemented json

datatype tool_result =
    ComponentList "component_summary list"
  | DetailResult component_detail
  | ErrorResult tool_error
  | PropsResult json "pydict list" nat
  | ExportResult export_summary

text \<open>
  \<open>next((c for c in index if c['name'].lower() == name.lower()), None)\<close>: only a string
  has \<open>lower\<close>, and the comparison is made once per entry until one matches.
\<close>

fun find_target ::
  "(ustr \<Rightarrow> ustr) \<Rightarrow> component_summary list \<Rightarrow> json \<Rightarrow> py_error + component_summary option" where
  "find_target lower [] nm = Inr None"
| "find_target lower (c # cs) nm =
     (case nm of
        JStr s \<Rightarrow> if lower (name c) = lower s then Inr (Some c) else find_target lower cs nm
      | _ \<Rightarrow> Inl AttributeError)"

text \<open>The detail of a URL through \<open>_details_cache\<close>.\<close>

definition cached_detail ::
  "environment \<Rightarrow> ustr option \<Rightarrow> bool \<Rightarrow> server_state
     \<Rightarrow> (exn + component_detail) \<times> server_state" where
  "cached_detail env u force st =
     (case (if force then None else map_of (details_cache st) u) of
        Some detail \<Rightarrow> (Inr detail, st)
      | None \<Rightarrow>
          (case get_component_detail env u force of
             Inl e \<Rightarrow> (Inl e, st)
           | Inr detail \<Rightarrow>
               (Inr detail, st\<lparr>details_cache := AList.update u detail (details_cache st)\<rparr>)))"

text \<open>
  The part \<open>handle_get_component\<close> and \<open>handle_get_component_props\<close> share: the name,
  the index, the target and its detail. The result is the structured error, or the
  requested name with the detail.
\<close>

definition lookup_component ::
  "environment \<Rightarrow> (ustr \<Rightarrow> ustr) \<Rightarrow> json \<Rightarrow> server_state
     \<Rightarrow> (exn + tool_error + json \<times> component_detail) \<times> server_state" where
  "lookup_component env lower params st =
     (case dict_get params (asc ''name'') JNull of
        Inl e \<Rightarrow> (Inl (Raised e), st)
      | Inr nm \<Rightarrow>
          if \<not> json_truthy nm then (Inr (Inl NameNotProvided), st)
          else
            case dict_get params (asc ''force'') (JBool False) of
              Inl e \<Rightarrow> (Inl (Raised e), st)
            | Inr force \<Rightarrow>
                (case ensure_index env lower (json_truthy force) st of
                   (Inl e, st1) \<Rightarrow> (Inl e, st1)
                 | (Inr index, st1) \<Rightarrow>
                     (case find_target lower index nm of
                        Inl e \<Rightarrow> (Inl (Raised e), st1)
                      | Inr None \<Rightarrow> (Inr (Inl (ComponentNotFound nm)), st1)
                      | Inr (Some target) \<Rightarrow>
                          (case cached_detail env (url target) (json_truthy force) st1 of
                             (Inl e, st2) \<Rightarrow> (Inl e, st2)
                           | (Inr detail, st2) \<Rightarrow> (Inr (Inr (nm, detail)), st2)))))"

definition handle_get_component ::
  "environment \<Rightarrow> (ustr \<Rightarrow> ustr) \<Rightarrow> json \<Rightarrow> server_state \<Rightarrow> (exn + tool_result) \<times> server_state" where
  "handle_get_component env lower params st =
     (case lookup_component env lower params st of
        (Inl e, st') \<Rightarrow> (Inl e, st')
      | (Inr (Inl err), st') \<Rightarrow> (Inr (ErrorResult err), st')
      | (Inr (Inr (nm, detail)), st') \<Rightarrow> (Inr (DetailResult detail), st'))"

definition handle_get_component_props ::
  "environment \<Rightarrow> (ustr \<Rightarrow> ustr) \<Rightarrow> json \<Rightarrow> server_state \<Rightarrow> (exn + tool_result) \<times> server_state" where
  "handle_get_component_props env lower params st =
     (case lookup_component env lower params st of
        (Inl e, st') \<Rightarrow> (Inl e, st')
      | (Inr (Inl err), st') \<Rightarrow> (Inr (ErrorResult err), st')
      | (Inr (Inr (nm, detail)), st') \<Rightarrow>
          (Inr (PropsResult nm (props_flat detail) (length (props_flat detail))), st'))"

definition handle_list_components ::
  "environment \<Rightarrow> (ustr \<Rightarrow> ustr) \<Rightarrow> json \<Rightarrow> server_state \<Rightarrow> (exn + tool_result) \<times> server_state" where
  "handle_list_components env lower params st =
     (case dict_get params (asc ''force'') (JBool False) of
        Inl e \<Rightarrow> (Inl (Raised e), st)
      | Inr force \<Rightarrow>
          (case ensure_index env lower (json_truthy force) st of
             (Inl e, st') \<Rightarrow> (Inl e, st')
           | (Inr index, st') \<Rightarrow> (Inr (ComponentList index), st')))"

text \<open>
  \<open>params['query'].lower()\<close>: only a dictionary can be indexed by a string, the key
  must be there, and it must hold a string.
\<close>

definition handle_search_components ::
  "environment \<Rightarrow> (ustr \<Rightarrow> ustr) \<Rightarrow> json \<Rightarrow> server_state \<Rightarrow> (exn + tool_result) \<times> server_state" where
  "handle_search_components env lower params st =
     (case params of
        JObj kvs \<Rightarrow>
          (case map_of kvs (asc ''query'') of
             None \<Rightarrow> (Inl (Raised KeyError), st)
           | Some (JStr q) \<Rightarrow>
               (case ensure_index env lower False st of
                  (Inl e, st') \<Rightarrow> (Inl e, st')
                | (Inr index, st') \<Rightarrow>
                    (Inr (ComponentList
                       (filter (\<lambda>c. sublist (lower q) (lower (name c))
                                    \<or> sublist (lower q) (lower (description c))) index)), st'))
           | Some other \<Rightarrow> (Inl (Raised AttributeError), st))
      | _ \<Rightarrow> (Inl (Raised TypeError), st))"

definition handle_export_all ::
  "environment \<Rightarrow> (ustr \<Rightarrow> ustr) \<Rightarrow> json \<Rightarrow> server_state \<Rightarrow> (exn + tool_result) \<times> server_state" where
  "handle_export_all env lower params st =
     (case dict_get params (asc ''force'') (JBool False) of
        Inl e \<Rightarrow> (Inl (Raised e), st)
      | Inr force \<Rightarrow>
          (case dict_get params (asc ''filepath'') JNull of
             Inl e \<Rightarrow> (Inl (Raised e), st)
           | Inr path \<Rightarrow>
               (case export_all_components env lower (json_truthy force) path True of
                  Inl e \<Rightarrow> (Inl e, st)
                | Inr (file, summary) \<Rightarrow> (Inr (ExportResult summary), st))))"

definition process_tool_call ::
  "environment \<Rightarrow> (ustr \<Rightarrow> ustr) \<Rightarrow> json \<Rightarrow> json \<Rightarrow> server_state \<Rightarrow> (exn + tool_result) \<times> server_state" where
  "process_tool_call env lower tool_name arguments st =
     (if tool_name = JStr (asc ''list_components'') then handle_list_components env lower arguments st
      else if tool_name = JStr (asc ''get_component'') then handle_get_component env lower arguments st
      else if tool_name = JStr (asc ''search_components'') then handle_search_components env lower arguments st
      else if tool_name = JStr (asc ''export_all'') then handle_export_all env lower arguments st
      else if tool_name = JStr (asc ''get_component_props'') then handle_get_component_props env lower arguments st
      else (Inr (ErrorResult (NotImplemented tool_name)), st))"

text \<open>
  The envelopes. The message of an error envelope is kept as what it is made from: the
  unknown tool name or method, or the exception.
\<close>

datatype rpc_message = UnknownTool json | UnknownMethod json | InternalError exn

datatype rpc_payload = ToolList "ustr list" | Content tool_result

datatype rpc_body = Result rpc_payload | Error int rpc_message

record envelope =
  jsonrpc :: ustr
  rpc_id :: json
  body :: rpc_body

definition rpc_result :: "json \<Rightarrow> rpc_payload \<Rightarrow> envelope" where
  "rpc_result ident result = \<lparr>jsonrpc = asc ''2.0'', rpc_id = ident, body = Result result\<rparr>"

definition rpc_error :: "json \<Rightarrow> int \<Rightarrow> rpc_message \<Rightarrow> envelope" where
  "rpc_error ident code message = \<lparr>jsonrpc = asc ''2.0'', rpc_id = ident, body = Error code message\<rparr>"

text \<open>
  \<open>tool_name not in TOOLS\<close> hashes the name first. An exception raised before the
  \<open>try\<close> leaves \<open>process_request\<close>; one raised by the tool is caught.
\<close>

definition process_request ::
  "environment \<Rightarrow> (ustr \<Rightarrow> ustr) \<Rightarrow> json \<Rightarrow> server_state \<Rightarrow> (exn + envelope) \<times> server_state" where
  "process_request env lower req st =
     (case dict_get req (asc ''method'') JNull of
        Inl e \<Rightarrow> (Inl (Raised e), st)
      | Inr method \<Rightarrow>
          (case dict_get req (asc ''id'') JNull of
             Inl e \<Rightarrow> (Inl (Raised e), st)
           | Inr ident \<Rightarrow>
               if method = JStr (asc ''tools/list'') then (Inr (rpc_result ident (ToolList TOOLS)), st)
               else if method = JStr (asc ''tools/call'') then
                 (case dict_get req (asc ''params'') (JObj []) of
                    Inl e \<Rightarrow> (Inl (Raised e), st)
                  | Inr params \<Rightarrow>
                      (case dict_get params (asc ''name'') JNull of
                         Inl e \<Rightarrow> (Inl (Raised e), st)
                       | Inr tool_name \<Rightarrow>
                           (case dict_get params (asc ''arguments'') (JObj []) of
                              Inl e \<Rightarrow> (Inl (Raised e), st)
                            | Inr args \<Rightarrow>
                                let arguments = (if json_truthy args then args else JObj []) in
                                if \<not> hashable tool_name then (Inl (Raised TypeError), st)
                                else if tool_name \<notin> JStr ` set TOOLS
                                then (Inr (rpc_error ident (- 32601) (UnknownTool tool_name)), st)
                                else
                                  (case process_tool_call env lower tool_name arguments st of
                                     (Inr result, st') \<Rightarrow> (Inr (rpc_result ident (Content result)), st')
                                   | (Inl e, st') \<Rightarrow>
                                       (Inr (rpc_error ident (- 32603) (InternalError e)), st')))))
               else (Inr (rpc_error ident (- 32601) (UnknownMethod method)), st)))"

text \<open>\<open>str.lower\<close> on ASCII strings, for concrete inputs.\<close>

definition ascii_lower :: "ustr \<Rightarrow> ustr" where
  "ascii_lower s = map (\<lambda>c. if 65 \<le> c \<and> c \<le> 90 then c + 32 else c) s"

subsection \<open>What the catalog keeps\<close>

text \<open>
  The valid summaries of one key, in the order seen, and the entry the specification
  asks for among them: the longest display name, the first seen among equally long ones.
\<close>

definition key_class :: "(ustr \<Rightarrow> ustr) \<Rightarrow> ustr \<Rightarrow> component_summary list \<Rightarrow> component_summary list" where
  "key_class lower k cs = filter (\<lambda>c. is_valid c \<and> lower (name c) = k) cs"

definition first_longest :: "component_summary list \<Rightarrow> component_summary \<Rightarrow> bool" where
  "first_longest cls e =
     (\<exists>i<length cls. cls ! i = e
        \<and> (\<forall>j<length cls. length (display_name (cls ! j)) \<le> length (display_name e))
        \<and> (\<forall>j<i. length (display_name (cls ! j)) < length (display_name e)))"

text \<open>The invariant of the loop that fills \<open>cleaned\<close>.\<close>

definition dedup_inv :: "(ustr \<Rightarrow> ustr) \<Rightarrow> component_summary list \<Rightarrow> catalog_dict \<Rightarrow> bool" where
  "dedup_inv lower cs cleaned =
     (distinct (map fst cleaned) \<and>
      (\<forall>k. case map_of cleaned k of
              None \<Rightarrow> key_class lower k cs = []
            | Some e \<Rightarrow> lower (name e) = k \<and> first_longest (key_class lower k cs) e))"

subsection \<open>Shapes of rows\<close>

text \<open>\<open>isinstance(v, str)\<close>.\<close>

definition is_str :: "pyval \<Rightarrow> bool" where
  "is_str v = (case v of Str s \<Rightarrow> True | _ \<Rightarrow> False)"

text \<open>
  The two shapes \<open>row_dict\<close> builds: a mapping from labels to cell texts, and the
  positional fallback, the cells under the single key \<open>cells\<close>.
\<close>

definition is_mapping_row :: "pydict \<Rightarrow> bool" where
  "is_mapping_row row = list_all (\<lambda>(k, v). is_str v) row"

definition is_positional_row :: "pydict \<Rightarrow> ustr list \<Rightarrow> bool" where
  "is_positional_row row cells = (row = [(asc ''cells'', StrList cells)])"

text \<open>Every field of a normalized row other than \<open>raw\<close> is a string.\<close>

definition str_fields :: "pydict \<Rightarrow> bool" where
  "str_fields n = list_all (\<lambda>(k, v). k \<noteq> asc ''raw'' \<longrightarrow> is_str v) n"

text \<open>Keywords that are not empty and contain no space.\<close>

definition plain_keywords :: "ustr list \<Rightarrow> bool" where
  "plain_keywords ks = list_all (\<lambda>k. k \<noteq> [] \<and> 32 \<notin> set k) ks"

section \<open>Example inputs\<close>

text \<open>
  An overview page with two cards: \<open>Button\<close> followed by its two-character Chinese name,
  inside an anchor to \<open>/components/button-cn/\<close>, and \<open>Icon\<close> inside an anchor without
  \<open>href\<close>.
\<close>

definition example_overview :: overview_page where
  "example_overview =
     \<lparr>cards = [\<lparr>card_title = Some (asc ''Button'' @ [25353, 38062]),
                 parent_anchor = Some (Some (asc ''/components/button-cn/'')),
                 inner_anchor = None\<rparr>,
               \<lparr>card_title = Some (asc ''Icon''), parent_anchor = Some None,
                 inner_anchor = None\<rparr>],
      menu_anchors = []\<rparr>"

definition button_card :: component_summary where
  "button_card =
     \<lparr>name = asc ''Button'', display_name = asc ''Button'' @ [25353, 38062],
      url = Some (asc ''https://4x.ant.design/components/button-cn/''), description = []\<rparr>"

definition icon_card :: component_summary where
  "icon_card = \<lparr>name = asc ''Icon'', display_name = asc ''Icon'', url = None, description = []\<rparr>"

definition button_menu :: component_summary where
  "button_menu =
     \<lparr>name = asc ''button'', display_name = asc ''Button'',
      url = Some (asc ''https://4x.ant.design/components/button/''), description = []\<rparr>"

text \<open>
  An overview page on which \<open>Button\<close> appears twice: as a card with the longer,
  bilingual label inside an anchor without \<open>href\<close>, and as a menu anchor with the
  shorter label; and the two summaries extracted from it.
\<close>

definition href_less_page :: overview_page where
  "href_less_page =
     \<lparr>cards = [\<lparr>card_title = Some (asc ''Button'' @ [25353, 38062]),
                 parent_anchor = Some None, inner_anchor = None\<rparr>],
      menu_anchors = [\<lparr>span_texts = [asc ''Button''], anchor_text = asc ''Button'',
                        anchor_href = Some (asc ''/components/button/'')\<rparr>]\<rparr>"

definition long_invalid :: component_summary where
  "long_invalid =
     \<lparr>name = asc ''Button'', display_name = asc ''Button'' @ [25353, 38062],
      url = None, description = []\<rparr>"

definition short_valid :: component_summary where
  "short_valid =
     \<lparr>name = asc ''Button'', display_name = asc ''Button'',
      url = Some (asc ''https://4x.ant.design/components/button/''), description = []\<rparr>"

text \<open>
  The headers of the specification's classification examples: event name and
  description; parameter, description, type and default; method name and description;
  example and effect.
\<close>

definition events_header :: "ustr list" where
  "events_header = [[20107, 20214, 21517], [35828, 26126]]"

definition props_header :: "ustr list" where
  "props_header = [[21442, 25968], [35828, 26126], [31867, 22411], [40664, 35748, 20540]]"

definition methods_header :: "ustr list" where
  "methods_header = [[26041, 27861, 21517], [35828, 26126]]"

definition other_header :: "ustr list" where
  "other_header = [[31034, 20363], [25928, 26524]]"

text \<open>
  A property table with a required column (parameter, required), one whose first column
  is labelled \<open>raw\<close>, a page holding the latter with one row, and a page without
  any of the expected elements.
\<close>

definition required_header :: "ustr list" where
  "required_header = [[21442, 25968], [24517, 22635]]"

definition raw_header :: "ustr list" where
  "raw_header = [asc ''raw'', [21442, 25968]]"

definition raw_column_page :: component_page where
  "raw_column_page =
     \<lparr>h1_text = None, p_texts = [],
      tables = [\<lparr>th_texts = raw_header, tr_cells = [[asc ''x'', asc ''size'']]\<rparr>],
      code_texts = []\<rparr>"

definition empty_page :: component_page where
  "empty_page = \<lparr>h1_text = None, p_texts = [], tables = [], code_texts = []\<rparr>"

text \<open>
  An overview page with the cards \<open>Button\<close>, \<open>Icon\<close> and \<open>Input\<close>, the catalog it
  gives, an environment in which the page of \<open>Icon\<close> cannot be fetched and every other
  component page is empty, and the server before its first request.
\<close>

definition three_cards :: overview_page where
  "three_cards =
     \<lparr>cards = [\<lparr>card_title = Some (asc ''Button''),
                 parent_anchor = Some (Some (asc ''/components/button/'')), inner_anchor = None\<rparr>,
               \<lparr>card_title = Some (asc ''Icon''),
                 parent_anchor = Some (Some (asc ''/components/icon/'')), inner_anchor = None\<rparr>,
               \<lparr>card_title = Some (asc ''Input''),
                 parent_anchor = Some (Some (asc ''/components/input/'')), inner_anchor = None\<rparr>],
      menu_anchors = []\<rparr>"

definition three_components :: "component_summary list" where
  "three_components =
     [\<lparr>name = asc ''Button'', display_name = asc ''Button'',
        url = Some (asc ''https://4x.ant.design/components/button/''), description = []\<rparr>,
      \<lparr>name = asc ''Icon'', display_name = asc ''Icon'',
        url = Some (asc ''https://4x.ant.design/components/icon/''), description = []\<rparr>,
      \<lparr>name = asc ''Input'', display_name = asc ''Input'',
        url = Some (asc ''https://4x.ant.design/components/input/''), description = []\<rparr>]"

definition icon_fails :: environment where
  "icon_fails =
     \<lparr>fetch_overview = (\<lambda>force. Inr three_cards),
      fetch_component =
        (\<lambda>u force. if u = asc ''https://4x.ant.design/components/icon/''
                   then Inl (FetchError (asc ''Failed''))
                   else Inr empty_page),
      write_export = (\<lambda>path. None),
      default_export_path = asc ''exports/antd_components_all.json''\<rparr>"

definition fresh_server :: server_state where
  "fresh_server = \<lparr>index_cache = None, details_cache = []\<rparr>"

text \<open>The server after it has built the index of the three components.\<close>

definition indexed_server :: server_state where
  "indexed_server = \<lparr>index_cache = Some three_components, details_cache = []\<rparr>"

section \<open>Properties of the catalog extractor\<close>

subsection \<open>The canonical name\<close>

lemma alnum_not_space: "is_alnum c \<Longrightarrow> \<not> isspace c"
  by (auto simp: is_alnum_def isspace_def)

lemma strip_no_space: "\<forall>c\<in>set s. \<not> isspace c \<Longrightarrow> strip s = s"
proof (cases "s = []")
  case True
  then show ?thesis by (simp add: strip_def)
next
  case False
  assume a: "\<forall>c\<in>set s. \<not> isspace c"
  from False a have "\<not> isspace (hd s)" "\<not> isspace (last s)" by auto
  then have "dropWhile isspace s = s" "dropWhile isspace (rev s) = rev s"
    using False by (simp_all add: dropWhile_eq_self_iff hd_rev)
  then show ?thesis by (simp add: strip_def)
qed

lemma last_dropWhile: "dropWhile P xs \<noteq> [] \<Longrightarrow> last (dropWhile P xs) = last xs"
  by (metis last_appendR takeWhile_dropWhile_id)

lemma strip_hd: "strip s \<noteq> [] \<Longrightarrow> \<not> isspace (hd (strip s))"
proof -
  assume ne: "strip s \<noteq> []"
  let ?d = "dropWhile isspace s"
  from ne have n2: "dropWhile isspace (rev ?d) \<noteq> []" by (simp add: strip_def)
  then have n1: "?d \<noteq> []" by (metis dropWhile.simps(1) rev.simps(1))
  have "hd (strip s) = last (dropWhile isspace (rev ?d))"
    using n2 by (simp add: strip_def hd_rev)
  also have "\<dots> = last (rev ?d)" using n2 by (rule last_dropWhile)
  also have "\<dots> = hd ?d" using n1 by (simp add: last_rev)
  finally show ?thesis using n1 hd_dropWhile by metis
qed

lemma split_acc_first:
  "cur \<noteq> [] \<or> (s \<noteq> [] \<and> \<not> isspace (hd s)) \<Longrightarrow>
   \<exists>rest. split_acc cur s = (cur @ takeWhile (\<lambda>c. \<not> isspace c) s) # rest"
  by (induction cur s rule: split_acc.induct) auto

lemma first_split_ws:
  assumes "s \<noteq> []" "\<not> isspace (hd s)"
  shows "first (split_ws s) = Inr (takeWhile (\<lambda>c. \<not> isspace c) s)"
  using split_acc_first[of "[]" s] assms by (auto simp: first_def split_ws_def)

text \<open>The three outcomes of \<open>normalize_name\<close>; the index \<open>[0]\<close> never fails.\<close>

lemma normalize_name_cases:
  "normalize_name L =
     (if takeWhile is_alnum (strip L) \<noteq> [] then Inr (takeWhile is_alnum (strip L))
      else if strip L \<noteq> [] then Inr (takeWhile (\<lambda>c. \<not> isspace c) (strip L))
      else Inr [])"
  using first_split_ws[of "strip L"] strip_hd[of L]
  by (simp add: normalize_name_def re_match_alnum_def Let_def)

lemma normalize_name_total: "\<exists>r. normalize_name L = Inr r"
  by (simp add: normalize_name_cases)

lemma normalize_name_Nil: "normalize_name [] = Inr []"
  by (simp add: normalize_name_def strip_def re_match_alnum_def)

lemma normalize_name_fixed_alnum:
  assumes "m \<noteq> []" "\<forall>c\<in>set m. is_alnum c"
  shows "normalize_name m = Inr m"
proof -
  have "strip m = m" using assms(2) alnum_not_space by (intro strip_no_space) blast
  moreover have "takeWhile is_alnum m = m" using assms(2) by (simp add: takeWhile_eq_all_conv)
  ultimately show ?thesis using assms(1)
    by (simp only: normalize_name_cases simp_thms if_True if_False)
qed

lemma normalize_name_fixed_token:
  assumes "t \<noteq> []" "\<forall>c\<in>set t. \<not> isspace c" "\<not> is_alnum (hd t)"
  shows "normalize_name t = Inr t"
proof -
  have "strip t = t" using assms(2) by (rule strip_no_space)
  moreover have "takeWhile is_alnum t = []" using assms(1,3) by (cases t) auto
  moreover have "takeWhile (\<lambda>c. \<not> isspace c) t = t"
    using assms(2) by (simp add: takeWhile_eq_all_conv)
  ultimately show ?thesis using assms(1)
    by (simp only: normalize_name_cases simp_thms if_True if_False)
qed

lemma normalize_name_result:
  "\<exists>r. normalize_name L = Inr r \<and> (strip L \<noteq> [] \<longrightarrow> r \<noteq> []) \<and> normalize_name r = Inr r"
proof -
  let ?raw = "strip L"
  let ?m = "takeWhile is_alnum ?raw"
  let ?t = "takeWhile (\<lambda>c. \<not> isspace c) ?raw"
  show ?thesis
  proof (cases "?m \<noteq> []")
    case True
    have "\<forall>c\<in>set ?m. is_alnum c" by (auto dest: set_takeWhileD)
    then have "normalize_name ?m = Inr ?m" using True by (intro normalize_name_fixed_alnum)
    then show ?thesis using True by (simp add: normalize_name_cases)
  next
    case nomatch: False
    show ?thesis
    proof (cases "?raw = []")
      case True
      then have "normalize_name L = Inr []" using nomatch by (simp add: normalize_name_cases)
      then show ?thesis using True by (simp add: normalize_name_Nil)
    next
      case False
      then have h: "\<not> isspace (hd ?raw)" by (rule strip_hd)
      from False h have tne: "?t \<noteq> []" by (cases ?raw) auto
      from False h have hdt: "hd ?t = hd ?raw" by (cases ?raw) auto
      from nomatch False have "\<not> is_alnum (hd ?raw)" by (cases ?raw) (auto split: if_splits)
      then have "\<not> is_alnum (hd ?t)" using hdt by simp
      moreover have "\<forall>c\<in>set ?t. \<not> isspace c" by (auto dest: set_takeWhileD)
      ultimately have "normalize_name ?t = Inr ?t" using tne by (intro normalize_name_fixed_token)
      then show ?thesis using nomatch False tne by (simp add: normalize_name_cases)
    qed
  qed
qed

lemma strip_eq_Nil_iff: "strip s = [] \<longleftrightarrow> (\<forall>c\<in>set s. isspace c)"
proof
  assume "\<forall>c\<in>set s. isspace c"
  then have d: "dropWhile isspace s = []" by simp
  show "strip s = []" unfolding strip_def d by simp
next
  assume e: "strip s = []"
  show "\<forall>c\<in>set s. isspace c"
  proof (rule ccontr)
    assume "\<not> (\<forall>c\<in>set s. isspace c)"
    then have d: "dropWhile isspace s \<noteq> []" by simp
    then have "\<not> isspace (hd (dropWhile isspace s))" by (rule hd_dropWhile)
    moreover have "hd (dropWhile isspace s) \<in> set (rev (dropWhile isspace s))"
      using d by simp
    ultimately have "dropWhile isspace (rev (dropWhile isspace s)) \<noteq> []"
      by (auto simp: dropWhile_eq_Nil_conv)
    then show False using e unfolding strip_def by simp
  qed
qed

text \<open>
  C3, as the code has it. \<open>normalize_name\<close> always returns; its result is non-empty
  whenever the label has a character that is not white space, and names are fixed
  points: normalising a second time changes nothing. A label of white space only is
  not empty, but its name is (the counterexample below).
\<close>

theorem normalize_name_total_idempotent:
  "\<exists>r. normalize_name L = Inr r \<and> ((\<exists>c\<in>set L. \<not> isspace c) \<longrightarrow> r \<noteq> [])
        \<and> normalize_name r = Inr r"
  using normalize_name_result [of L] strip_eq_Nil_iff [of L] by blast

theorem normalize_name_total_idempotent_witness:
  "(66 \<in> set (asc ''Button '' @ [25353, 38062]) \<and> \<not> isspace 66)
   \<and> normalize_name (asc ''Button '' @ [25353, 38062]) = Inr (asc ''Button'')
   \<and> normalize_name (asc ''Button'') = Inr (asc ''Button'')"
proof -
  have h: "66 \<in> set (asc ''Button '' @ [25353, 38062])" "\<not> isspace 66"
    by (simp_all add: asc_def isspace_def)
  then have "\<exists>c\<in>set (asc ''Button '' @ [25353, 38062]). \<not> isspace c" by blast
  moreover have "normalize_name (asc ''Button '' @ [25353, 38062]) = Inr (asc ''Button'')"
    by (simp add: normalize_name_def re_match_alnum_def strip_def isspace_def is_alnum_def asc_def)
  ultimately show ?thesis
    using normalize_name_total_idempotent [of "asc ''Button '' @ [25353, 38062]"] h by auto
qed

theorem normalize_name_blank_counterexample:
  "([32] :: ustr) \<noteq> [] \<and> normalize_name [32] = Inr []"
  by (simp add: normalize_name_def re_match_alnum_def strip_def isspace_def)

subsection \<open>The catalog\<close>

lemma set_update_subset: "set (AList.update k v al) \<subseteq> insert (k, v) (set al)"
  by (induction al) auto

lemma clean_step_valid:
  assumes "\<forall>(k, e)\<in>set cleaned. e \<in> set cs \<and> is_valid e"
  shows "\<forall>(k, e)\<in>set (clean_step lower cleaned c). e \<in> set (cs @ [c]) \<and> is_valid e"
proof (cases "is_valid c")
  case False
  then show ?thesis using assms by (auto simp: clean_step_def)
next
  case True
  have "set (clean_step lower cleaned c) \<subseteq> insert (lower (name c), c) (set cleaned)"
    using set_update_subset[of "lower (name c)" c cleaned]
    by (auto simp: clean_step_def Let_def split: option.splits)
  then show ?thesis using assms True by fastforce
qed

lemma foldl_clean_step_valid:
  "\<forall>(k, e)\<in>set (foldl (clean_step lower) [] cs). e \<in> set cs \<and> is_valid e"
proof (induction cs rule: rev_induct)
  case Nil
  then show ?case by simp
next
  case (snoc c cs)
  then show ?case using clean_step_valid[of "foldl (clean_step lower) [] cs" cs lower c] by simp
qed

lemma clean_components_valid:
  "e \<in> set (clean_components lower cs) \<Longrightarrow> e \<in> set cs \<and> is_valid e"
  using foldl_clean_step_valid[of lower cs] by (auto simp: clean_components_def)

lemma is_valid_url:
  "is_valid c \<longleftrightarrow> (\<exists>u. url c = Some u \<and> u \<noteq> [] \<and> sublist (asc ''/components/'') u
      \<and> (prefix (asc ''http://'') u \<or> prefix (asc ''https://'') u))"
  by (auto simp: is_valid_def split: option.splits)

lemma card_components_total: "\<exists>cs. card_components cds = Inr cs"
proof (induction cds)
  case Nil
  then show ?case by simp
next
  case (Cons c cds)
  then obtain cs where cs: "card_components cds = Inr cs" by blast
  show ?case
  proof (cases "card_title c")
    case None
    then show ?thesis using cs by simp
  next
    case (Some t)
    obtain r where "normalize_name t = Inr r" using normalize_name_total by blast
    then show ?thesis using cs Some by simp
  qed
qed

lemma menu_components_total: "\<exists>cs. menu_components ms = Inr cs"
proof (induction ms)
  case Nil
  then show ?case by simp
next
  case (Cons m ms)
  then obtain cs where cs: "menu_components ms = Inr cs" by blast
  obtain r where "normalize_name (spans_text m) = Inr r" using normalize_name_total by blast
  then show ?case using cs by simp
qed

text \<open>
  C7. \<open>parse_overview\<close> always returns a catalog, and every summary in it has a URL
  that is a non-empty string, starts with \<open>http://\<close> or \<open>https://\<close> and contains
  \<open>/components/\<close>: the loop skips every summary that \<open>is_valid\<close> rejects.
\<close>

theorem parse_overview_urls:
  "\<exists>cat. parse_overview lower page = Inr cat
     \<and> (\<forall>c\<in>set cat. \<exists>u. url c = Some u \<and> u \<noteq> []
            \<and> (prefix (asc ''http://'') u \<or> prefix (asc ''https://'') u)
            \<and> sublist (asc ''/components/'') u)"
proof -
  obtain cs where cs: "card_components (cards page) = Inr cs"
    using card_components_total by blast
  obtain ms where ms: "menu_components (menu_anchors page) = Inr ms"
    using menu_components_total by blast
  have "parse_overview lower page = Inr (clean_components lower (cs @ ms))"
    by (simp add: parse_overview_def cs ms)
  moreover have "\<forall>c\<in>set (clean_components lower (cs @ ms)). \<exists>u. url c = Some u \<and> u \<noteq> []
            \<and> (prefix (asc ''http://'') u \<or> prefix (asc ''https://'') u)
            \<and> sublist (asc ''/components/'') u"
    using clean_components_valid is_valid_url by blast
  ultimately show ?thesis by blast
qed

lemma first_longest_single: "first_longest [c] c"
  by (simp add: first_longest_def)

lemma first_longest_snoc_longer:
  assumes "first_longest cls old" "length (display_name c) > length (display_name old)"
  shows "first_longest (cls @ [c]) c"
  unfolding first_longest_def
proof (intro exI[of _ "length cls"] conjI allI impI)
  show "length cls < length (cls @ [c])" by simp
  show "(cls @ [c]) ! length cls = c" by simp
  from assms(1) have le: "\<forall>j<length cls. length (display_name (cls ! j)) \<le> length (display_name old)"
    by (auto simp: first_longest_def)
  fix j
  { assume "j < length (cls @ [c])"
    then show "length (display_name ((cls @ [c]) ! j)) \<le> length (display_name c)"
      using le assms(2) by (cases "j < length cls") (auto simp: nth_append intro: le_trans less_imp_le) }
  { assume "j < length cls"
    then show "length (display_name ((cls @ [c]) ! j)) < length (display_name c)"
      using le assms(2) by (auto simp: nth_append intro: le_less_trans) }
qed

lemma first_longest_snoc_keep:
  assumes "first_longest cls old" "\<not> length (display_name c) > length (display_name old)"
  shows "first_longest (cls @ [c]) old"
proof -
  from assms(1) obtain i where i: "i < length cls" "cls ! i = old"
    "\<forall>j<length cls. length (display_name (cls ! j)) \<le> length (display_name old)"
    "\<forall>j<i. length (display_name (cls ! j)) < length (display_name old)"
    by (auto simp: first_longest_def)
  show ?thesis unfolding first_longest_def
  proof (intro exI[of _ i] conjI allI impI)
    show "i < length (cls @ [c])" using i(1) by simp
    show "(cls @ [c]) ! i = old" using i(1,2) by (simp add: nth_append)
    fix j
    { assume "j < length (cls @ [c])"
      then show "length (display_name ((cls @ [c]) ! j)) \<le> length (display_name old)"
        using i(3) assms(2) by (cases "j < length cls") (auto simp: nth_append) }
    { assume "j < i"
      then show "length (display_name ((cls @ [c]) ! j)) < length (display_name old)"
        using i(1,4) by (auto simp: nth_append) }
  qed
qed

lemma key_class_snoc:
  "key_class lower k (cs @ [c]) =
     key_class lower k cs @ (if is_valid c \<and> lower (name c) = k then [c] else [])"
  by (simp add: key_class_def)

lemma dedup_inv_step:
  assumes "dedup_inv lower cs cleaned"
  shows "dedup_inv lower (cs @ [c]) (clean_step lower cleaned c)"
proof (cases "is_valid c")
  case False
  then have kc: "\<And>k. key_class lower k (cs @ [c]) = key_class lower k cs"
    by (simp add: key_class_snoc)
  from False have "clean_step lower cleaned c = cleaned" by (simp add: clean_step_def)
  then show ?thesis using assms unfolding dedup_inv_def kc by simp
next
  case valid: True
  let ?key = "lower (name c)"
  from assms have dist: "distinct (map fst cleaned)" by (simp add: dedup_inv_def)
  from assms have inv: "\<And>k. case map_of cleaned k of
              None \<Rightarrow> key_class lower k cs = []
            | Some e \<Rightarrow> lower (name e) = k \<and> first_longest (key_class lower k cs) e"
    by (simp add: dedup_inv_def)
  show ?thesis
  proof (cases "map_of cleaned ?key")
    case None
    then have step: "clean_step lower cleaned c = AList.update ?key c cleaned"
      using valid by (simp add: clean_step_def)
    from inv[of ?key] None have empty: "key_class lower ?key cs = []" by simp
    show ?thesis unfolding dedup_inv_def step
    proof (intro conjI allI)
      show "distinct (map fst (AList.update ?key c cleaned))" using dist by (rule distinct_update)
      fix k
      show "case map_of (AList.update ?key c cleaned) k of
              None \<Rightarrow> key_class lower k (cs @ [c]) = []
            | Some e \<Rightarrow> lower (name e) = k \<and> first_longest (key_class lower k (cs @ [c])) e"
        using inv[of k] empty valid
        by (cases "k = ?key")
           (simp_all add: update_conv' key_class_snoc first_longest_single split: option.splits)
    qed
  next
    case (Some old)
    from inv[of ?key] Some have old: "first_longest (key_class lower ?key cs) old" by simp
    show ?thesis
    proof (cases "length (display_name c) > length (display_name old)")
      case True
      then have step: "clean_step lower cleaned c = AList.update ?key c cleaned"
        using valid Some by (simp add: clean_step_def)
      show ?thesis unfolding dedup_inv_def step
      proof (intro conjI allI)
        show "distinct (map fst (AList.update ?key c cleaned))" using dist by (rule distinct_update)
        fix k
        show "case map_of (AList.update ?key c cleaned) k of
                None \<Rightarrow> key_class lower k (cs @ [c]) = []
              | Some e \<Rightarrow> lower (name e) = k \<and> first_longest (key_class lower k (cs @ [c])) e"
          using inv[of k] valid first_longest_snoc_longer[OF old True]
          by (cases "k = ?key")
             (simp_all add: update_conv' key_class_snoc split: option.splits)
      qed
    next
      case False
      then have step: "clean_step lower cleaned c = cleaned"
        using valid Some by (simp add: clean_step_def)
      show ?thesis unfolding dedup_inv_def step
      proof (intro conjI allI)
        show "distinct (map fst cleaned)" by (rule dist)
        fix k
        show "case map_of cleaned k of
                None \<Rightarrow> key_class lower k (cs @ [c]) = []
              | Some e \<Rightarrow> lower (name e) = k \<and> first_longest (key_class lower k (cs @ [c])) e"
          using inv[of k] valid Some first_longest_snoc_keep[OF old False]
          by (cases "k = ?key")
             (simp_all add: key_class_snoc split: option.splits)
      qed
    qed
  qed
qed

lemma dedup_inv_foldl: "dedup_inv lower cs (foldl (clean_step lower) [] cs)"
proof (induction cs rule: rev_induct)
  case Nil
  then show ?case by (simp add: dedup_inv_def key_class_def)
next
  case (snoc c cs)
  then show ?case using dedup_inv_step by simp
qed

lemma filter_key_unique:
  assumes "distinct (map fst al)" "map_of al k = Some e" "\<forall>(k', e')\<in>set al. f e' = k'"
  shows "filter (\<lambda>e'. f e' = k) (map snd al) = [e]"
  using assms
proof (induction al)
  case Nil
  then show ?case by simp
next
  case (Cons p al)
  obtain k' e' where p: "p = (k', e')" by (cases p)
  show ?case
  proof (cases "k' = k")
    case True
    then have "e' = e" using Cons.prems(2) p by simp
    moreover have "filter (\<lambda>e'. f e' = k) (map snd al) = []"
    proof -
      have notin: "k \<notin> fst ` set al" using Cons.prems(1) p True by simp
      have "\<And>x. x \<in> set al \<Longrightarrow> f (snd x) \<noteq> k"
      proof -
        fix x assume x: "x \<in> set al"
        then have "f (snd x) = fst x" using Cons.prems(3) by (cases x) auto
        moreover have "fst x \<noteq> k" using x notin by auto
        ultimately show "f (snd x) \<noteq> k" by simp
      qed
      then show ?thesis by (simp add: filter_empty_conv)
    qed
    ultimately show ?thesis using Cons.prems(3) p True by simp
  next
    case False
    then show ?thesis using Cons p by auto
  qed
qed

text \<open>
  C6, as the code has it. Among the summaries of one lower-cased name that have a valid
  URL the catalog holds exactly one entry: the one with the longest display name, and
  of several equally long ones the first seen. A summary without a valid URL never
  takes part, however long its display name (the counterexample below).
\<close>

theorem clean_components_keeps_first_longest:
  assumes "key_class lower k cs \<noteq> []"
  shows "\<exists>e. filter (\<lambda>c. lower (name c) = k) (clean_components lower cs) = [e]
            \<and> first_longest (key_class lower k cs) e"
proof -
  let ?cleaned = "foldl (clean_step lower) [] cs"
  have inv: "dedup_inv lower cs ?cleaned" by (rule dedup_inv_foldl)
  then have dist: "distinct (map fst ?cleaned)" by (simp add: dedup_inv_def)
  from inv have at: "\<And>k. case map_of ?cleaned k of
              None \<Rightarrow> key_class lower k cs = []
            | Some e \<Rightarrow> lower (name e) = k \<and> first_longest (key_class lower k cs) e"
    by (simp add: dedup_inv_def)
  from at[of k] assms obtain e where e: "map_of ?cleaned k = Some e"
    "first_longest (key_class lower k cs) e"
    by (cases "map_of ?cleaned k") auto
  have keys: "\<forall>(k', e')\<in>set ?cleaned. lower (name e') = k'"
  proof (clarify)
    fix k' e' assume "(k', e') \<in> set ?cleaned"
    then have "map_of ?cleaned k' = Some e'" using dist by simp
    then show "lower (name e') = k'" using at[of k'] by simp
  qed
  have "filter (\<lambda>c. lower (name c) = k) (map snd ?cleaned) = [e]"
    using dist e(1) keys by (rule filter_key_unique)
  then show ?thesis using e(2) by (auto simp: clean_components_def)
qed

lemmas string_eval = asc_def sublist_code any_in_def

lemmas name_eval = normalize_name_def re_match_alnum_def strip_def isspace_def is_alnum_def
  first_def split_ws_def

lemma example_overview_catalog: "parse_overview ascii_lower example_overview = Inr [button_card]"
proof -
  have cc: "card_components (cards example_overview) = Inr [button_card, icon_card]"
    by (simp add: example_overview_def button_card_def icon_card_def card_href_def
        absolute_url_def BASE_URL_def name_eval string_eval)
  have mm: "menu_components (menu_anchors example_overview) = Inr []"
    by (simp add: example_overview_def)
  have v: "is_valid button_card" "\<not> is_valid icon_card"
    by (simp_all add: is_valid_def button_card_def icon_card_def string_eval)
  have "clean_components ascii_lower [button_card, icon_card] = [button_card]"
    by (simp add: clean_components_def clean_step_def v)
  then show ?thesis by (simp add: parse_overview_def cc mm)
qed

theorem parse_overview_urls_witness:
  "parse_overview ascii_lower example_overview = Inr [button_card]
   \<and> url button_card = Some (asc ''https://4x.ant.design/components/button-cn/'')
   \<and> asc ''https://4x.ant.design/components/button-cn/'' \<noteq> []
   \<and> prefix (asc ''https://'') (asc ''https://4x.ant.design/components/button-cn/'')
   \<and> sublist (asc ''/components/'') (asc ''https://4x.ant.design/components/button-cn/'')"
proof -
  have u: "url button_card = Some (asc ''https://4x.ant.design/components/button-cn/'')"
    by (simp add: button_card_def)
  have np: "\<not> prefix (asc ''http://'') (asc ''https://4x.ant.design/components/button-cn/'')"
    by (simp add: asc_def)
  from parse_overview_urls [of ascii_lower example_overview] example_overview_catalog u np
  show ?thesis by simp
qed

theorem clean_components_keeps_first_longest_witness:
  "key_class ascii_lower (asc ''button'') [button_menu, button_card] \<noteq> []
   \<and> filter (\<lambda>c. ascii_lower (name c) = asc ''button'')
        (clean_components ascii_lower [button_menu, button_card]) = [button_card]
   \<and> first_longest (key_class ascii_lower (asc ''button'') [button_menu, button_card])
        button_card"
proof -
  have v: "is_valid button_card" "is_valid button_menu"
    by (simp_all add: is_valid_def button_card_def button_menu_def string_eval)
  have k: "ascii_lower (name button_card) = asc ''button''"
    "ascii_lower (name button_menu) = asc ''button''"
    by (simp_all add: ascii_lower_def button_card_def button_menu_def asc_def)
  have l: "length (display_name button_menu) < length (display_name button_card)"
    by (simp add: button_card_def button_menu_def asc_def)
  have ne: "key_class ascii_lower (asc ''button'') [button_menu, button_card] \<noteq> []"
    by (simp add: key_class_def v k)
  have ev: "filter (\<lambda>c. ascii_lower (name c) = asc ''button'')
        (clean_components ascii_lower [button_menu, button_card]) = [button_card]"
    by (simp add: clean_components_def clean_step_def v k l)
  from clean_components_keeps_first_longest [OF ne] ev ne show ?thesis by simp
qed

theorem clean_components_drops_longer_invalid_counterexample:
  "card_components (cards href_less_page) = Inr [long_invalid]
   \<and> menu_components (menu_anchors href_less_page) = Inr [short_valid]
   \<and> ascii_lower (name long_invalid) = ascii_lower (name short_valid)
   \<and> length (display_name short_valid) < length (display_name long_invalid)
   \<and> parse_overview ascii_lower href_less_page = Inr [short_valid]"
proof -
  have cc: "card_components (cards href_less_page) = Inr [long_invalid]"
    by (simp add: href_less_page_def long_invalid_def card_href_def absolute_url_def
        name_eval string_eval)
  have mm: "menu_components (menu_anchors href_less_page) = Inr [short_valid]"
    by (simp add: href_less_page_def short_valid_def spans_text_def absolute_url_def
        BASE_URL_def name_eval string_eval)
  have v: "\<not> is_valid long_invalid" "is_valid short_valid"
    by (simp_all add: is_valid_def long_invalid_def short_valid_def string_eval)
  have cl: "clean_components ascii_lower [long_invalid, short_valid] = [short_valid]"
    by (simp add: clean_components_def clean_step_def v)
  have k: "ascii_lower (name long_invalid) = ascii_lower (name short_valid)"
    "length (display_name short_valid) < length (display_name long_invalid)"
    by (simp_all add: long_invalid_def short_valid_def asc_def)
  have "parse_overview ascii_lower href_less_page = Inr [short_valid]"
    by (simp add: parse_overview_def cc mm cl)
  then show ?thesis using cc mm k by simp
qed

section \<open>Properties of the detail extractor\<close>

subsection \<open>Table classification\<close>

lemma sublist_across_separator:
  assumes "x \<notin> set k"
  shows "sublist k (a @ x # b) \<longleftrightarrow> sublist k a \<or> sublist k b"
proof
  assume "sublist k (a @ x # b)"
  then obtain ps ss where eq: "a @ x # b = ps @ k @ ss" by (auto simp: sublist_def)
  then consider (inA) us where "a = ps @ us" "us @ x # b = k @ ss"
    | (inB) us where "a @ us = ps" "x # b = us @ k @ ss"
    by (auto simp: append_eq_append_conv2)
  then show "sublist k a \<or> sublist k b"
  proof cases
    case inA
    from inA(2) consider (whole) vs where "us = k @ vs"
      | (cut) vs where "k = us @ vs" "x # b = vs @ ss"
      by (auto simp: append_eq_append_conv2)
    then show ?thesis
    proof cases
      case whole
      then have "a = ps @ k @ vs" using inA(1) by simp
      then show ?thesis by (auto simp: sublist_def)
    next
      case cut
      show ?thesis
      proof (cases vs)
        case Nil
        then have "a = ps @ k @ []" using cut(1) inA(1) by simp
        then show ?thesis unfolding sublist_def by blast
      next
        case (Cons v vs')
        then have "x \<in> set k" using cut by auto
        then show ?thesis using assms by simp
      qed
    qed
  next
    case inB
    show ?thesis
    proof (cases us)
      case Nil
      then have "x # b = k @ ss" using inB(2) by simp
      then have "k = []" using assms by (cases k) auto
      then show ?thesis by simp
    next
      case (Cons u us')
      then have "b = us' @ k @ ss" using inB(2) by simp
      then show ?thesis unfolding sublist_def by blast
    qed
  qed
next
  assume "sublist k a \<or> sublist k b"
  then show "sublist k (a @ x # b)"
  proof
    assume "sublist k a"
    then obtain ps ss where "a = ps @ k @ ss" by (auto simp: sublist_def)
    then have "a @ x # b = ps @ k @ (ss @ x # b)" by simp
    then show ?thesis unfolding sublist_def by blast
  next
    assume "sublist k b"
    then obtain ps ss where "b = ps @ k @ ss" by (auto simp: sublist_def)
    then have "a @ x # b = (a @ x # ps) @ k @ ss" by simp
    then show ?thesis unfolding sublist_def by blast
  qed
qed

lemma sublist_join_sp:
  assumes "k \<noteq> []" "32 \<notin> set k"
  shows "sublist k (join_sp hdr) \<longleftrightarrow> (\<exists>l\<in>set hdr. sublist k l)"
proof (induction hdr rule: join_sp.induct)
  case 1
  then show ?case using assms(1) by simp
next
  case (2 x)
  then show ?case by simp
next
  case (3 x y ys)
  then show ?case using sublist_across_separator[OF assms(2), of x "join_sp (y # ys)"] by simp
qed

lemma any_in_join_sp:
  assumes "plain_keywords ks"
  shows "any_in ks (join_sp hdr) \<longleftrightarrow> (\<exists>k\<in>set ks. \<exists>l\<in>set hdr. sublist k l)"
  using assms sublist_join_sp
  by (auto simp: any_in_def plain_keywords_def list_ex_iff list_all_iff)

lemma plain_tables:
  "plain_keywords event_keywords" "plain_keywords method_keywords" "plain_keywords prop_keywords"
  "plain_keywords api_keywords_1" "plain_keywords api_keywords_2" "plain_keywords [asc ''API'']"
  by (simp_all add: plain_keywords_def event_keywords_def method_keywords_def prop_keywords_def
      api_keywords_1_def api_keywords_2_def asc_def)

lemma sublist_API: "sublist (asc ''API'') s = any_in [asc ''API''] s"
  by (simp add: any_in_def)

lemma classify_set_cong: "set h1 = set h2 \<Longrightarrow> classify h1 = classify h2"
  unfolding classify_def Let_def sublist_API
  by (simp only: any_in_join_sp plain_tables)

text \<open>
  C4. The category depends on the set of header labels only. An events keyword decides
  for events whatever else the header holds; without one, a methods keyword decides
  for methods; without either, a property keyword or one of the two \<open>API\<close> rules
  decides for props; a header that matches no rule is other.
\<close>

theorem classify_priority:
  "(set h1 = set h2 \<longrightarrow> classify h1 = classify h2)
   \<and> (any_in event_keywords (join_sp he) \<longrightarrow> classify he = Events)
   \<and> (\<not> any_in event_keywords (join_sp hm) \<and> any_in method_keywords (join_sp hm)
        \<longrightarrow> classify hm = Methods)
   \<and> (\<not> any_in event_keywords (join_sp hp) \<and> \<not> any_in method_keywords (join_sp hp)
        \<and> (any_in prop_keywords (join_sp hp)
             \<or> (sublist (asc ''API'') (join_sp hp)
                 \<and> (any_in api_keywords_1 (join_sp hp) \<or> any_in api_keywords_2 (join_sp hp))))
        \<longrightarrow> classify hp = Props)
   \<and> (\<not> any_in event_keywords (join_sp ho) \<and> \<not> any_in method_keywords (join_sp ho)
        \<and> \<not> any_in prop_keywords (join_sp ho)
        \<and> \<not> (sublist (asc ''API'') (join_sp ho)
               \<and> (any_in api_keywords_1 (join_sp ho) \<or> any_in api_keywords_2 (join_sp ho)))
        \<longrightarrow> classify ho = Other)"
proof (intro conjI impI)
  assume "set h1 = set h2"
  then show "classify h1 = classify h2" by (rule classify_set_cong)
qed (auto simp: classify_def Let_def)

lemmas keyword_eval = event_keywords_def method_keywords_def prop_keywords_def
  api_keywords_1_def api_keywords_2_def

theorem classify_priority_witness:
  "set events_header = set (rev events_header)
   \<and> classify events_header = classify (rev events_header)
   \<and> any_in event_keywords (join_sp events_header) \<and> classify events_header = Events
   \<and> \<not> any_in event_keywords (join_sp methods_header)
   \<and> any_in method_keywords (join_sp methods_header) \<and> classify methods_header = Methods
   \<and> \<not> any_in event_keywords (join_sp props_header)
   \<and> \<not> any_in method_keywords (join_sp props_header)
   \<and> any_in prop_keywords (join_sp props_header) \<and> classify props_header = Props
   \<and> \<not> any_in event_keywords (join_sp other_header)
   \<and> \<not> any_in method_keywords (join_sp other_header)
   \<and> \<not> any_in prop_keywords (join_sp other_header)
   \<and> \<not> sublist (asc ''API'') (join_sp other_header) \<and> classify other_header = Other"
proof -
  have e: "any_in event_keywords (join_sp events_header)"
    by (simp add: events_header_def keyword_eval string_eval)
  have m: "\<not> any_in event_keywords (join_sp methods_header)"
    "any_in method_keywords (join_sp methods_header)"
    by (simp_all add: methods_header_def keyword_eval string_eval)
  have p: "\<not> any_in event_keywords (join_sp props_header)"
    "\<not> any_in method_keywords (join_sp props_header)"
    "any_in prop_keywords (join_sp props_header)"
    by (simp_all add: props_header_def keyword_eval string_eval)
  have o: "\<not> any_in event_keywords (join_sp other_header)"
    "\<not> any_in method_keywords (join_sp other_header)"
    "\<not> any_in prop_keywords (join_sp other_header)"
    "\<not> sublist (asc ''API'') (join_sp other_header)"
    by (simp_all add: other_header_def keyword_eval string_eval)
  have s: "set events_header = set (rev events_header)" by simp
  from classify_priority [of events_header "rev events_header" events_header methods_header
      props_header other_header] e m p o s
  show ?thesis by blast
qed

subsection \<open>The extractor never raises\<close>

lemma set_foldl_update:
  "set (foldl (\<lambda>d (k, v). AList.update (f k) v d) d0 kvs) \<subseteq> set d0 \<union> (\<lambda>(k, v). (f k, v)) ` set kvs"
proof (induction kvs arbitrary: d0)
  case Nil
  then show ?case by simp
next
  case (Cons p kvs)
  obtain k v where p: "p = (k, v)" by (cases p)
  have "set (foldl (\<lambda>d (k, v). AList.update (f k) v d) (AList.update (f k) v d0) kvs)
        \<subseteq> set (AList.update (f k) v d0) \<union> (\<lambda>(k, v). (f k, v)) ` set kvs"
    by (rule Cons.IH)
  then show ?case using set_update_subset[of "f k" v d0] p by auto
qed

lemma mapping_row_dict_of: "is_mapping_row (dict_of (zip hdr (map Str cells)))"
proof -
  have "set (dict_of (zip hdr (map Str cells))) \<subseteq> set (zip hdr (map Str cells))"
    using set_foldl_update[of "\<lambda>k. k" "[]" "zip hdr (map Str cells)"] by (auto simp: dict_of_def)
  moreover have "\<forall>(k, v)\<in>set (zip hdr (map Str cells)). is_str v"
    by (auto simp: is_str_def dest!: set_zip_rightD)
  ultimately show ?thesis by (fastforce simp: is_mapping_row_def list_all_iff)
qed

lemma fill_from_cells_ok:
  assumes "is_str c \<or> (\<exists>xs. c = StrList xs)" "str_fields n"
  shows "\<exists>n'. fill_from_cells c i hdr n = Inr n' \<and> str_fields n'"
  using assms(2)
proof (induction hdr arbitrary: i n)
  case Nil
  then show ?case by simp
next
  case (Cons h hs)
  from assms(1) obtain m where len: "py_len c = Inr m"
    by (cases c) (auto simp: is_str_def)
  show ?case
  proof (cases "i < m")
    case False
    then show ?thesis using len Cons by simp
  next
    case True
    then obtain s where idx: "py_index c i = Inr (Str s)"
      using assms(1) len by (cases c) (auto simp: is_str_def)
    have "str_fields (AList.update (synonym h) (Str s) n)"
      using Cons.prems set_update_subset[of "synonym h" "Str s" n]
      by (fastforce simp: str_fields_def list_all_iff is_str_def)
    then show ?thesis using len idx True Cons.IH by simp
  qed
qed

lemma fill_from_items_ok:
  assumes "is_mapping_row row" "str_fields n"
  shows "str_fields (fill_from_items row n)"
proof -
  have "set (fill_from_items row n) \<subseteq> set n \<union> (\<lambda>(k, v). (synonym k, v)) ` set row"
    unfolding fill_from_items_def by (rule set_foldl_update)
  then show ?thesis using assms
    by (fastforce simp: str_fields_def is_mapping_row_def list_all_iff)
qed

lemma split_on_acc_nonempty: "split_on_acc sep cur s \<noteq> []"
  by (induction sep cur s rule: split_on_acc.induct) auto

lemma first_split_on: "\<exists>line. first (split_on sep s) = Inr line"
  using split_on_acc_nonempty[of sep "[]" s]
  by (cases "split_on_acc sep [] s") (auto simp: first_def split_on_def)

lemma name_not_raw: "asc ''name'' \<noteq> asc ''raw''"
  by (simp add: asc_def)

lemma clean_name_ok:
  assumes "str_fields n"
  shows "\<exists>n'. clean_name n = Inr n'"
proof (cases "map_of n (asc ''name'')")
  case None
  then show ?thesis by (simp add: clean_name_def)
next
  case (Some v)
  then have "(asc ''name'', v) \<in> set n" by (rule map_of_SomeD)
  then have "is_str v" using assms name_not_raw by (auto simp: str_fields_def list_all_iff)
  then obtain s where v: "v = Str s" by (cases v) (auto simp: is_str_def)
  obtain line where "first (split_on 10 s) = Inr line" using first_split_on by blast
  then show ?thesis using Some v by (simp add: clean_name_def)
qed

lemma raw_only_str_fields: "str_fields [(asc ''raw'', Dict row)]"
  by (simp add: str_fields_def)

lemma normalize_row_total:
  assumes "is_mapping_row row \<or> (\<exists>cells. is_positional_row row cells)"
  shows "\<exists>n. normalize_row row hdr = Inr n"
proof -
  let ?n0 = "[(asc ''raw'', Dict row)]"
  have "\<exists>filled. (case map_of row (asc ''cells'') of
              Some cells \<Rightarrow> fill_from_cells cells 0 hdr ?n0
            | None \<Rightarrow> Inr (fill_from_items row ?n0)) = Inr filled \<and> str_fields filled"
  proof (cases "map_of row (asc ''cells'')")
    case None
    then have "is_mapping_row row" using assms by (auto simp: is_positional_row_def)
    then show ?thesis using None fill_from_items_ok raw_only_str_fields by simp
  next
    case (Some c)
    have "is_str c \<or> (\<exists>xs. c = StrList xs)"
    proof (cases "is_mapping_row row")
      case True
      from Some have "(asc ''cells'', c) \<in> set row" by (rule map_of_SomeD)
      then show ?thesis using True by (auto simp: is_mapping_row_def list_all_iff)
    next
      case False
      then show ?thesis using assms Some by (auto simp: is_positional_row_def)
    qed
    then show ?thesis using Some fill_from_cells_ok[OF _ raw_only_str_fields] by simp
  qed
  then obtain filled where f: "(case map_of row (asc ''cells'') of
              Some cells \<Rightarrow> fill_from_cells cells 0 hdr ?n0
            | None \<Rightarrow> Inr (fill_from_items row ?n0)) = Inr filled" "str_fields filled"
    by blast
  obtain named where "clean_name filled = Inr named" using clean_name_ok[OF f(2)] by blast
  then show ?thesis using f(1) by (simp add: normalize_row_def Let_def)
qed

text \<open>The first half of C5: which shape a row takes.\<close>

lemma row_dict_shape:
  assumes "cells \<noteq> []"
  shows "(length cells = length hdr \<longrightarrow> is_mapping_row (row_dict hdr cells))
       \<and> (length cells \<noteq> length hdr \<longrightarrow> is_positional_row (row_dict hdr cells) cells)"
  using assms mapping_row_dict_of by (auto simp: row_dict_def is_positional_row_def)

lemma rows_struct_shape:
  "row \<in> set (rows_struct hdr trs) \<Longrightarrow> is_mapping_row row \<or> (\<exists>cells. is_positional_row row cells)"
  using row_dict_shape by (fastforce simp: rows_struct_def)

lemma normalize_rows_total:
  "\<forall>row\<in>set rs. is_mapping_row row \<or> (\<exists>cells. is_positional_row row cells)
     \<Longrightarrow> \<exists>ns. normalize_rows hdr rs = Inr ns"
proof (induction rs)
  case Nil
  then show ?case by simp
next
  case (Cons r rs)
  then obtain ns where ns: "normalize_rows hdr rs = Inr ns" by auto
  have "is_mapping_row r \<or> (\<exists>cells. is_positional_row r cells)" using Cons.prems by simp
  then obtain n where "normalize_row r hdr = Inr n" using normalize_row_total[of r hdr] by blast
  then show ?case using ns by simp
qed

lemma flatten_props_total:
  "\<forall>t\<in>set ts. \<forall>row\<in>set (rows t). is_mapping_row row \<or> (\<exists>cells. is_positional_row row cells)
     \<Longrightarrow> \<exists>flat. flatten_props ts = Inr flat"
proof (induction ts)
  case Nil
  then show ?case by simp
next
  case (Cons t ts)
  then obtain flat where flat: "flatten_props ts = Inr flat" by auto
  have "\<forall>row\<in>set (rows t). is_mapping_row row \<or> (\<exists>cells. is_positional_row row cells)"
    using Cons.prems by simp
  then obtain ns where "normalize_rows (header t) (rows t) = Inr ns"
    using normalize_rows_total[of "rows t" "header t"] by blast
  then show ?case using flat by simp
qed

lemma props_tables_rows:
  "\<forall>t\<in>set (tables_of_kind kind (map table_object tbls)).
     \<forall>row\<in>set (rows t). is_mapping_row row \<or> (\<exists>cells. is_positional_row row cells)"
proof (intro ballI)
  fix t row
  assume t: "t \<in> set (tables_of_kind kind (map table_object tbls))" and r: "row \<in> set (rows t)"
  from t obtain tbl where "t = table_object tbl" by (auto simp: tables_of_kind_def)
  then have "row \<in> set (rows_struct (th_texts tbl) (tr_cells tbl))"
    using r by (simp add: table_object_def)
  then show "is_mapping_row row \<or> (\<exists>cells. is_positional_row row cells)"
    by (rule rows_struct_shape)
qed

lemma parse_component_returns: "\<exists>d. parse_component page = Inr d"
proof -
  obtain flat where
    "flatten_props (tables_of_kind Props (map table_object (tables page))) = Inr flat"
    using flatten_props_total[OF props_tables_rows] by blast
  then show ?thesis by (simp add: parse_component_def Let_def)
qed

text \<open>
  C8. \<open>parse_component\<close> returns a detail record for every page, whatever the
  selections hold: no index, key or attribute access of \<open>normalize_row\<close> fails on a
  row that \<open>row_dict\<close> built. Without a heading there is no title; without
  paragraphs, tables or code blocks the corresponding collections are empty and the
  counts are zero.
\<close>

theorem parse_component_total:
  "\<exists>d. parse_component page = Inr d
     \<and> (h1_text page = None \<longrightarrow> title d = None)
     \<and> (p_texts page = [] \<longrightarrow> intro d = [])
     \<and> (tables page = [] \<longrightarrow>
          props d = [] \<and> events d = [] \<and> methods d = [] \<and> other_tables d = []
          \<and> table_summary d = \<lparr>count_props = 0, count_events = 0, count_methods = 0, count_other = 0\<rparr>
          \<and> props_flat d = [])
     \<and> (code_texts page = [] \<longrightarrow> examples d = [])"
proof -
  obtain flat where flat:
    "flatten_props (tables_of_kind Props (map table_object (tables page))) = Inr flat"
    using flatten_props_total[OF props_tables_rows] by blast
  have empty: "tables page = [] \<longrightarrow> flat = []"
    using flat by (auto simp: tables_of_kind_def)
  show ?thesis using flat empty
    by (simp add: parse_component_def Let_def tables_of_kind_def)
qed

theorem parse_component_total_witness:
  "h1_text empty_page = None \<and> p_texts empty_page = [] \<and> tables empty_page = []
   \<and> code_texts empty_page = []
   \<and> (\<exists>d. parse_component empty_page = Inr d
          \<and> title d = None \<and> intro d = []
          \<and> props d = [] \<and> events d = [] \<and> methods d = [] \<and> other_tables d = []
          \<and> table_summary d = \<lparr>count_props = 0, count_events = 0, count_methods = 0, count_other = 0\<rparr>
          \<and> props_flat d = [] \<and> examples d = [])"
proof -
  have e: "h1_text empty_page = None" "p_texts empty_page = []" "tables empty_page = []"
    "code_texts empty_page = []"
    by (simp_all add: empty_page_def)
  from parse_component_total [of empty_page] e show ?thesis by blast
qed

subsection \<open>Normalized rows\<close>

lemma map_of_foldl_update:
  "map_of (foldl (\<lambda>d (k, v). AList.update (f k) v d) d0 kvs)
     = map_of d0 ++ map_of (rev (map (\<lambda>(k, v). (f k, v)) kvs))"
proof (induction kvs arbitrary: d0)
  case Nil
  then show ?case by simp
next
  case (Cons p kvs)
  obtain k v where p: "p = (k, v)" by (cases p)
  have "map_of (foldl (\<lambda>d (k, v). AList.update (f k) v d) (AList.update (f k) v d0) kvs)
        = map_of (AList.update (f k) v d0) ++ map_of (rev (map (\<lambda>(k, v). (f k, v)) kvs))"
    by (rule Cons.IH)
  also have "\<dots> = map_of d0 ++ map_of (rev (map (\<lambda>(k, v). (f k, v)) (p # kvs)))"
    by (rule ext) (simp add: p update_conv' map_add_def split: option.splits)
  finally show ?case by (simp add: p)
qed

lemma map_of_all_same:
  assumes "(key, v0) \<in> set l" "\<forall>v. (key, v) \<in> set l \<longrightarrow> v = v0"
  shows "map_of l key = Some v0"
proof (cases "map_of l key")
  case None
  then show ?thesis using assms(1) by (auto simp: map_of_eq_None_iff intro: rev_image_eqI)
next
  case (Some v)
  then have "(key, v) \<in> set l" by (rule map_of_SomeD)
  then show ?thesis using assms(2) Some by simp
qed

lemma fill_from_items_map:
  "map_of (fill_from_items row n)
     = map_of n ++ map_of (rev (map (\<lambda>(k, v). (synonym k, v)) row))"
  unfolding fill_from_items_def by (rule map_of_foldl_update)

lemma fill_from_items_other:
  assumes "\<forall>(k, v)\<in>set row. synonym k \<noteq> key"
  shows "map_of (fill_from_items row n) key = map_of n key"
proof -
  have "map_of (rev (map (\<lambda>(k, v). (synonym k, v)) row)) key = None"
    using assms by (force simp: map_of_eq_None_iff)
  then show ?thesis by (simp add: fill_from_items_map map_add_def)
qed

lemma fill_from_cells_other:
  assumes "fill_from_cells c i hdr n = Inr n'" "\<forall>h\<in>set hdr. synonym h \<noteq> key"
  shows "map_of n' key = map_of n key"
  using assms
proof (induction hdr arbitrary: i n)
  case Nil
  then show ?case by simp
next
  case (Cons h hs)
  from Cons.prems(1) obtain m where m: "py_len c = Inr m" by (auto split: sum.splits)
  show ?case
  proof (cases "i < m")
    case False
    then show ?thesis using Cons m by simp
  next
    case True
    with Cons.prems(1) m obtain v where v: "py_index c i = Inr v"
      "fill_from_cells c (i + 1) hs (AList.update (synonym h) v n) = Inr n'"
      by (auto split: sum.splits)
    have "map_of n' key = map_of (AList.update (synonym h) v n) key"
      using Cons.IH[OF v(2)] Cons.prems(2) by simp
    then show ?thesis using Cons.prems(2) by (auto simp: update_conv')
  qed
qed

lemma clean_name_other:
  assumes "clean_name n = Inr n'" "key \<noteq> asc ''name''"
  shows "map_of n' key = map_of n key"
  using assms
  by (auto simp: clean_name_def update_conv' split: option.splits if_splits pyval.splits sum.splits)

lemma normalize_required_other:
  "key \<noteq> asc ''required'' \<Longrightarrow> map_of (normalize_required n) key = map_of n key"
  by (auto simp: normalize_required_def update_conv' split: option.splits pyval.splits)

lemma normalize_required_field:
  assumes "map_of n (asc ''required'') = Some (Str t)"
  shows "map_of (normalize_required n) (asc ''required'')
         = Some (if any_in affirmative_tokens t then Bool True
                 else if any_in negative_tokens t then Bool False
                 else Str t)"
  using assms by (simp add: normalize_required_def update_conv')

lemma synonym_canonical:
  "map_of header_synonyms h = Some k \<Longrightarrow>
   k \<in> {asc ''name'', asc ''description'', asc ''type'', asc ''default'', asc ''version'',
        asc ''options'', asc ''required''}"
proof -
  assume "map_of header_synonyms h = Some k"
  then have "k \<in> snd ` set header_synonyms" by (metis map_of_SomeD snd_conv image_eqI)
  then show ?thesis by (auto simp: header_synonyms_def)
qed

lemma synonym_raw: "synonym h = asc ''raw'' \<longleftrightarrow> h = asc ''raw''"
proof (cases "map_of header_synonyms h")
  case None
  then show ?thesis by (simp add: synonym_def)
next
  case (Some k)
  then have hk: "(h, k) \<in> set header_synonyms" by (rule map_of_SomeD)
  have "k \<noteq> asc ''raw''" using synonym_canonical[OF Some] by (auto simp: asc_def)
  moreover have "h \<noteq> asc ''raw''" using hk by (auto simp: header_synonyms_def asc_def)
  ultimately show ?thesis using Some by (simp add: synonym_def)
qed

lemma row_dict_keys: "fst ` set (row_dict hdr cells) \<subseteq> set hdr \<union> {asc ''cells''}"
proof -
  have "set (dict_of (zip hdr (map Str cells))) \<subseteq> set (zip hdr (map Str cells))"
    using set_foldl_update[of "\<lambda>k. k" "[]" "zip hdr (map Str cells)"] by (auto simp: dict_of_def)
  then have "fst ` set (dict_of (zip hdr (map Str cells))) \<subseteq> set hdr"
    by (auto dest!: set_zip_leftD)
  then show ?thesis by (auto simp: row_dict_def)
qed


lemma required_not_name: "asc ''required'' \<noteq> asc ''name''"
  by (simp add: asc_def)

lemma raw_not_required: "asc ''raw'' \<noteq> asc ''required''"
  by (simp add: asc_def)

text \<open>The round trip that does hold: without a column labelled \<open>raw\<close>.\<close>

lemma normalize_row_raw_kept:
  assumes "asc ''raw'' \<notin> set hdr"
  shows "\<exists>n. normalize_row (row_dict hdr cells) hdr = Inr n
            \<and> map_of n (asc ''raw'') = Some (Dict (row_dict hdr cells))"
proof -
  let ?row = "row_dict hdr cells"
  let ?n0 = "[(asc ''raw'', Dict ?row)]"
  have shape: "is_mapping_row ?row \<or> (\<exists>cs. is_positional_row ?row cs)"
    using mapping_row_dict_of by (auto simp: row_dict_def is_positional_row_def)
  then obtain n where n: "normalize_row ?row hdr = Inr n" using normalize_row_total by blast
  then obtain filled named where
    filled: "(case map_of ?row (asc ''cells'') of
                Some c \<Rightarrow> fill_from_cells c 0 hdr ?n0
              | None \<Rightarrow> Inr (fill_from_items ?row ?n0)) = Inr filled"
    and named: "clean_name filled = Inr named"
    and res: "n = normalize_required named"
    by (auto simp: normalize_row_def Let_def split: sum.splits)
  have hdr_syn: "\<forall>h\<in>set hdr. synonym h \<noteq> asc ''raw''"
    using assms by (auto simp: synonym_raw)
  have "asc ''raw'' \<noteq> asc ''cells''" by (simp add: asc_def)
  then have keys: "\<forall>(k, v)\<in>set ?row. synonym k \<noteq> asc ''raw''"
    using row_dict_keys[of hdr cells] assms by (auto simp: synonym_raw)
  have "map_of filled (asc ''raw'') = map_of ?n0 (asc ''raw'')"
  proof (cases "map_of ?row (asc ''cells'')")
    case None
    then have "filled = fill_from_items ?row ?n0" using filled by simp
    then show ?thesis using fill_from_items_other[OF keys] by simp
  next
    case (Some c)
    then have "fill_from_cells c 0 hdr ?n0 = Inr filled" using filled by simp
    then show ?thesis using hdr_syn by (rule fill_from_cells_other)
  qed
  then have "map_of named (asc ''raw'') = Some (Dict ?row)"
    using clean_name_other[OF named, of "asc ''raw''"] name_not_raw by simp
  then have "map_of n (asc ''raw'') = Some (Dict ?row)"
    using res normalize_required_other[of "asc ''raw''" named] raw_not_required by simp
  then show ?thesis using n by blast
qed

lemma normalize_row_required_mapping:
  assumes len: "length hdr = length cells"
    and i: "i < length hdr"
    and syn: "synonym (hdr ! i) = asc ''required''"
    and uniq: "\<forall>j<length hdr. j \<noteq> i \<longrightarrow> synonym (hdr ! j) \<noteq> asc ''required''"
    and nocells: "asc ''cells'' \<notin> set hdr"
  shows "\<exists>n. normalize_row (row_dict hdr cells) hdr = Inr n
            \<and> map_of n (asc ''required'')
                = Some (if any_in affirmative_tokens (cells ! i) then Bool True
                        else if any_in negative_tokens (cells ! i) then Bool False
                        else Str (cells ! i))"
proof -
  let ?kvs = "zip hdr (map Str cells)"
  let ?row = "row_dict hdr cells"
  let ?n0 = "[(asc ''raw'', Dict ?row)]"
  let ?req = "asc ''required''"
  from i have ne: "hdr \<noteq> []" by auto
  then have row: "?row = dict_of ?kvs" using len by (simp add: row_dict_def)
  have sub: "set ?row \<subseteq> set ?kvs"
    using set_foldl_update[of "\<lambda>k. k" "[]" ?kvs] by (auto simp: row dict_of_def)
  have at_i: "(hdr ! i, Str (cells ! i)) \<in> set ?kvs"
    using i len by (auto simp: in_set_zip intro!: exI[of _ i])
  have only_i: "\<And>k v. (k, v) \<in> set ?kvs \<Longrightarrow> synonym k = ?req \<Longrightarrow> v = Str (cells ! i)"
  proof -
    fix k v assume "(k, v) \<in> set ?kvs" and s: "synonym k = ?req"
    then obtain j where j: "j < length hdr" "hdr ! j = k" "map Str cells ! j = v"
      by (auto simp: in_set_zip)
    then have "j = i" using uniq s by auto
    then show "v = Str (cells ! i)" using j len by auto
  qed
  have "map_of ?row = map_of (rev ?kvs)"
    using map_of_foldl_update[of "\<lambda>k. k" "[]" ?kvs] by (simp add: row dict_of_def)
  moreover have "map_of (rev ?kvs) (hdr ! i) = Some (Str (cells ! i))"
  proof (rule map_of_all_same)
    show "(hdr ! i, Str (cells ! i)) \<in> set (rev ?kvs)" using at_i by simp
    show "\<forall>v. (hdr ! i, v) \<in> set (rev ?kvs) \<longrightarrow> v = Str (cells ! i)"
    proof (intro allI impI)
      fix v assume "(hdr ! i, v) \<in> set (rev ?kvs)"
      then have "(hdr ! i, v) \<in> set ?kvs" by simp
      then show "v = Str (cells ! i)" using syn by (rule only_i)
    qed
  qed
  ultimately have "map_of ?row (hdr ! i) = Some (Str (cells ! i))" by simp
  then have in_row: "(hdr ! i, Str (cells ! i)) \<in> set ?row" by (rule map_of_SomeD)
  have "fst ` set ?row \<subseteq> set hdr" using sub by (auto dest!: set_zip_leftD)
  then have no_cells: "map_of ?row (asc ''cells'') = None"
    using nocells by (auto simp: map_of_eq_None_iff)
  let ?filled = "fill_from_items ?row ?n0"
  have "map_of (rev (map (\<lambda>(k, v). (synonym k, v)) ?row)) ?req = Some (Str (cells ! i))"
  proof (rule map_of_all_same)
    show "(?req, Str (cells ! i)) \<in> set (rev (map (\<lambda>(k, v). (synonym k, v)) ?row))"
      using in_row syn by force
    show "\<forall>v. (?req, v) \<in> set (rev (map (\<lambda>(k, v). (synonym k, v)) ?row)) \<longrightarrow> v = Str (cells ! i)"
    proof (intro allI impI)
      fix v assume "(?req, v) \<in> set (rev (map (\<lambda>(k, v). (synonym k, v)) ?row))"
      then obtain k where k: "(k, v) \<in> set ?row" "synonym k = ?req" by auto
      from k(1) sub have "(k, v) \<in> set ?kvs" by blast
      then show "v = Str (cells ! i)" using k(2) by (rule only_i)
    qed
  qed
  then have filled: "map_of ?filled ?req = Some (Str (cells ! i))"
    by (simp add: fill_from_items_map)
  have "str_fields ?filled"
    using fill_from_items_ok[OF _ raw_only_str_fields] mapping_row_dict_of row by simp
  then obtain named where named: "clean_name ?filled = Inr named"
    using clean_name_ok by blast
  then have "map_of named ?req = Some (Str (cells ! i))"
    using clean_name_other[OF named, of ?req] filled required_not_name by simp
  then have "map_of (normalize_required named) ?req
      = Some (if any_in affirmative_tokens (cells ! i) then Bool True
              else if any_in negative_tokens (cells ! i) then Bool False
              else Str (cells ! i))"
    by (rule normalize_required_field)
  moreover have "normalize_row ?row hdr = Inr (normalize_required named)"
    using no_cells named by (simp add: normalize_row_def Let_def)
  ultimately show ?thesis by blast
qed


lemma fill_from_cells_at:
  assumes "fill_from_cells (StrList cells) k hdr n = Inr n'"
    and "i < length hdr" "synonym (hdr ! i) = key"
    and "\<forall>j<length hdr. j \<noteq> i \<longrightarrow> synonym (hdr ! j) \<noteq> key"
    and "k + i < length cells"
  shows "map_of n' key = Some (Str (cells ! (k + i)))"
  using assms
proof (induction hdr arbitrary: k i n)
  case Nil
  then show ?case by simp
next
  case (Cons h hs)
  show ?case
  proof (cases i)
    case 0
    then have syn: "synonym h = key" and k: "k < length cells"
      using Cons.prems(3,5) by simp_all
    then have rest: "fill_from_cells (StrList cells) (k + 1) hs
                       (AList.update key (Str (cells ! k)) n) = Inr n'"
      using Cons.prems(1) by simp
    have "\<forall>h'\<in>set hs. synonym h' \<noteq> key"
    proof
      fix h' assume "h' \<in> set hs"
      then obtain j where "j < length hs" "hs ! j = h'" by (auto simp: in_set_conv_nth)
      then show "synonym h' \<noteq> key" using Cons.prems(4) 0 by (auto dest: spec[of _ "Suc j"])
    qed
    then have "map_of n' key = map_of (AList.update key (Str (cells ! k)) n) key"
      using fill_from_cells_other[OF rest] by blast
    then show ?thesis using 0 by (simp add: update_conv')
  next
    case (Suc i')
    have i': "i' < length hs" "synonym (hs ! i') = key" "(k + 1) + i' < length cells"
      using Cons.prems(2,3,5) Suc by simp_all
    have u: "\<forall>j<length hs. j \<noteq> i' \<longrightarrow> synonym (hs ! j) \<noteq> key"
      using Cons.prems(4) Suc by (auto dest: spec[of _ "Suc j" for j])
    from Cons.prems(1) obtain n1 where rest: "fill_from_cells (StrList cells) (k + 1) hs n1 = Inr n'"
      by (auto split: if_splits)
    have "map_of n' key = Some (Str (cells ! ((k + 1) + i')))"
      using Cons.IH[OF rest i'(1,2) u i'(3)] .
    then show ?thesis using Suc by simp
  qed
qed

text \<open>
  C2, as the code has it. In a row, mapping or positional, with exactly one column whose
  label means \<open>required\<close> (and no column labelled \<open>cells\<close>) and with a cell in
  that column, the field is \<open>True\<close> when the cell holds an affirmative token; if it
  holds none, \<open>False\<close> when it holds a negative token; and otherwise the field stays
  in the row with the cell text as its value. It is not removed: an empty or
  unrecognized cell leaves a string there (the counterexample below).
\<close>

theorem normalize_row_required:
  assumes i: "i < length hdr" "i < length cells"
    and syn: "synonym (hdr ! i) = asc ''required''"
    and uniq: "\<forall>j<length hdr. j \<noteq> i \<longrightarrow> synonym (hdr ! j) \<noteq> asc ''required''"
    and nocells: "asc ''cells'' \<notin> set hdr"
  shows "\<exists>n. normalize_row (row_dict hdr cells) hdr = Inr n
            \<and> map_of n (asc ''required'')
                = Some (if any_in affirmative_tokens (cells ! i) then Bool True
                        else if any_in negative_tokens (cells ! i) then Bool False
                        else Str (cells ! i))"
proof (cases "length hdr = length cells")
  case True
  then show ?thesis using normalize_row_required_mapping[OF True i(1) syn uniq nocells] by simp
next
  case False
  let ?row = "[(asc ''cells'', StrList cells)]"
  let ?n0 = "[(asc ''raw'', Dict ?row)]"
  let ?req = "asc ''required''"
  from False have row: "row_dict hdr cells = ?row" by (simp add: row_dict_def)
  have "\<exists>n'. fill_from_cells (StrList cells) 0 hdr ?n0 = Inr n' \<and> str_fields n'"
    by (rule fill_from_cells_ok) (simp_all add: raw_only_str_fields)
  then obtain filled where filled: "fill_from_cells (StrList cells) 0 hdr ?n0 = Inr filled"
    "str_fields filled"
    by blast
  have "map_of filled ?req = Some (Str (cells ! (0 + i)))"
    using filled(1) i(1) syn uniq by (rule fill_from_cells_at) (use i(2) in simp)
  then have f: "map_of filled ?req = Some (Str (cells ! i))" by simp
  obtain named where named: "clean_name filled = Inr named"
    using clean_name_ok[OF filled(2)] by blast
  then have "map_of named ?req = Some (Str (cells ! i))"
    using clean_name_other[OF named, of ?req] f required_not_name by simp
  then have "map_of (normalize_required named) ?req
      = Some (if any_in affirmative_tokens (cells ! i) then Bool True
              else if any_in negative_tokens (cells ! i) then Bool False
              else Str (cells ! i))"
    by (rule normalize_required_field)
  moreover have "normalize_row ?row hdr = Inr (normalize_required named)"
    using filled(1) named by (simp add: normalize_row_def Let_def)
  ultimately show ?thesis using row by auto
qed

lemmas row_eval = normalize_row_def row_dict_def dict_of_def fill_from_items_def clean_name_def
  normalize_required_def synonym_def header_synonyms_def first_def split_on_def strip_def
  isspace_def affirmative_tokens_def negative_tokens_def

lemma required_header_facts:
  "length required_header = 2"
  "synonym (required_header ! 0) \<noteq> asc ''required''"
  "synonym (required_header ! 1) = asc ''required''"
  "asc ''cells'' \<notin> set required_header"
  by (simp_all add: required_header_def synonym_def header_synonyms_def asc_def)


theorem normalize_row_required_witness:
  "length required_header = length [asc ''size'', [26159]]
   \<and> (1::nat) < length required_header
   \<and> synonym (required_header ! 1) = asc ''required''
   \<and> synonym (required_header ! 0) \<noteq> asc ''required''
   \<and> asc ''cells'' \<notin> set required_header
   \<and> (\<exists>n. normalize_row (row_dict required_header [asc ''size'', [26159]]) required_header = Inr n
          \<and> map_of n (asc ''required'') = Some (Bool True))"
proof -
  have len: "length required_header = length [asc ''size'', [26159]]"
    and i: "(1::nat) < length required_header" "(1::nat) < length [asc ''size'', [26159]]"
    by (simp_all add: required_header_facts)
  have uniq: "\<forall>j<length required_header. j \<noteq> 1 \<longrightarrow> synonym (required_header ! j) \<noteq> asc ''required''"
    using required_header_facts(2) by (auto simp: required_header_facts(1) less_Suc_eq numeral_2_eq_2)
  have yes: "any_in affirmative_tokens ([asc ''size'', [26159]] ! 1)"
    by (simp add: affirmative_tokens_def string_eval)
  from normalize_row_required [OF i required_header_facts(3) uniq required_header_facts(4)] yes
    len i required_header_facts
  show ?thesis by simp
qed

theorem normalize_row_required_counterexample:
  "normalize_row (row_dict required_header [asc ''size'', []]) required_header
     = Inr [(asc ''raw'', Dict [([21442, 25968], Str (asc ''size'')), ([24517, 22635], Str [])]),
            (asc ''name'', Str (asc ''size'')),
            (asc ''required'', Str [])]
   \<and> map_of [(asc ''raw'', Dict [([21442, 25968], Str (asc ''size'')), ([24517, 22635], Str [])]),
            (asc ''name'', Str (asc ''size'')),
            (asc ''required'', Str [])] (asc ''required'') = Some (Str [])"
  by (simp add: required_header_def row_eval string_eval)


lemma raw_header_props: "classify raw_header = Props"
  by (simp add: classify_def raw_header_def keyword_eval string_eval)

text \<open>
  C5 at a table whose first column is labelled \<open>raw\<close>: the row is the mapping of both
  labels to their cells, but the \<open>raw\<close> field of the normalized row is the text of
  the first cell, not that mapping.
\<close>

theorem raw_column_overwrites_raw:
  "map_sum id props_flat (parse_component raw_column_page)
     = Inr [[(asc ''raw'', Str (asc ''x'')), (asc ''name'', Str (asc ''size''))]]
   \<and> row_dict raw_header [asc ''x'', asc ''size'']
     = [(asc ''raw'', Str (asc ''x'')), ([21442, 25968], Str (asc ''size''))]"
proof -
  have row: "row_dict raw_header [asc ''x'', asc ''size'']
     = [(asc ''raw'', Str (asc ''x'')), ([21442, 25968], Str (asc ''size''))]"
    by (simp add: raw_header_def row_dict_def dict_of_def asc_def)
  have n: "normalize_row [(asc ''raw'', Str (asc ''x'')), ([21442, 25968], Str (asc ''size''))] raw_header
     = Inr [(asc ''raw'', Str (asc ''x'')), (asc ''name'', Str (asc ''size''))]"
    by (simp add: raw_header_def row_eval string_eval)
  have objs: "map table_object (tables raw_column_page)
     = [\<lparr>header = raw_header,
          rows = [[(asc ''raw'', Str (asc ''x'')), ([21442, 25968], Str (asc ''size''))]]\<rparr>]"
    by (simp add: raw_column_page_def table_object_def rows_struct_def row)
  have flat: "flatten_props [\<lparr>header = raw_header,
          rows = [[(asc ''raw'', Str (asc ''x'')), ([21442, 25968], Str (asc ''size''))]]\<rparr>]
     = Inr [[(asc ''raw'', Str (asc ''x'')), (asc ''name'', Str (asc ''size''))]]"
    by (simp add: n)
  have kinds: "tables_of_kind Props (map table_object (tables raw_column_page))
     = [\<lparr>header = raw_header,
          rows = [[(asc ''raw'', Str (asc ''x'')), ([21442, 25968], Str (asc ''size''))]]\<rparr>]"
    by (simp add: tables_of_kind_def objs raw_header_props)
  obtain d where d: "parse_component raw_column_page = Inr d"
    using parse_component_returns by blast
  then have "props_flat d = [[(asc ''raw'', Str (asc ''x'')), (asc ''name'', Str (asc ''size''))]]"
    unfolding parse_component_def Let_def kinds flat by auto
  then have "map_sum id props_flat (parse_component raw_column_page)
     = Inr [[(asc ''raw'', Str (asc ''x'')), (asc ''name'', Str (asc ''size''))]]"
    using d by simp
  then show ?thesis using row by simp
qed

section \<open>Properties of the corpus exporter\<close>

lemma three_cards_catalog: "parse_overview ascii_lower three_cards = Inr three_components"
proof -
  have cc: "card_components (cards three_cards) = Inr three_components"
    by (simp add: three_cards_def three_components_def card_href_def absolute_url_def
        BASE_URL_def name_eval string_eval)
  have mm: "menu_components (menu_anchors three_cards) = Inr []"
    by (simp add: three_cards_def)
  have "clean_components ascii_lower three_components = three_components"
    by (simp add: three_components_def clean_components_def clean_step_def is_valid_def
        ascii_lower_def string_eval)
  then show ?thesis by (simp add: parse_overview_def cc mm)
qed

lemma icon_fails_index: "build_component_index icon_fails ascii_lower force = Inr three_components"
  by (simp add: build_component_index_def icon_fails_def three_cards_catalog)

lemma empty_page_detail:
  "parse_component empty_page
     = Inr \<lparr>title = None, intro = [], props = [], events = [], methods = [], other_tables = [],
            table_summary = \<lparr>count_props = 0, count_events = 0, count_methods = 0, count_other = 0\<rparr>,
            examples = [], props_flat = [], source_url = None\<rparr>"
  by (simp add: parse_component_def empty_page_def tables_of_kind_def)

lemma icon_fails_entries:
  "list_all (\<lambda>d. \<not> has_error d)
     [export_entry_of icon_fails force (three_components ! 0),
      export_entry_of icon_fails force (three_components ! 2)]"
  "has_error (export_entry_of icon_fails force (three_components ! 1))"
  by (simp_all add: export_entry_of_def get_component_detail_def icon_fails_def three_components_def
      empty_page_detail has_error_def asc_def)

text \<open>What the summary counts.\<close>

lemma export_summary_counts:
  assumes "export_all_components env lower force path validate = Inr (file, summary)"
  shows "\<exists>index. build_component_index env lower force = Inr index
           \<and> count summary = (if validate
                then length (filter (\<lambda>c. \<not> has_error (export_entry_of env force c)) index)
                else length index)
           \<and> errors summary = (if validate then 0
                else length (filter (\<lambda>c. has_error (export_entry_of env force c)) index))"
proof -
  from assms obtain index where index: "build_component_index env lower force = Inr index"
    by (auto simp: export_all_components_def split: sum.splits)
  have "filter has_error (filter (\<lambda>d. \<not> has_error d) xs) = []" for xs :: "export_entry list"
    by (induction xs) auto
  then show ?thesis using assms index
    by (auto simp: export_all_components_def Let_def filter_map comp_def
        split: option.splits if_splits)
qed

text \<open>
  C1 at a catalog of three components of which the second cannot be fetched. Without
  validation the summary counts three entries and one error. With validation it counts
  two entries and no error: the errors are counted in the list that the filter has
  already cleared of them.
\<close>

theorem export_validate_drops_error_count:
  "map_sum id snd (export_all_components icon_fails ascii_lower False JNull True)
     = Inr \<lparr>filepath = JStr (asc ''exports/antd_components_all.json''), count = 2, errors = 0\<rparr>
   \<and> map_sum id snd (export_all_components icon_fails ascii_lower False JNull False)
     = Inr \<lparr>filepath = JStr (asc ''exports/antd_components_all.json''), count = 3, errors = 1\<rparr>
   \<and> length (filter (\<lambda>c. has_error (export_entry_of icon_fails False c)) three_components) = 1"
proof -
  have c: "three_components = [three_components ! 0, three_components ! 1, three_components ! 2]"
    by (simp add: three_components_def)
  have m: "map (export_entry_of icon_fails False) three_components
     = [export_entry_of icon_fails False (three_components ! 0),
        export_entry_of icon_fails False (three_components ! 1),
        export_entry_of icon_fails False (three_components ! 2)]"
    by (subst c) simp
  have w: "write_export icon_fails p = None" "default_export_path icon_fails = asc ''exports/antd_components_all.json''" for p
    by (simp_all add: icon_fails_def)
  have f: "length (filter (\<lambda>c. has_error (export_entry_of icon_fails False c)) three_components) = 1"
    by (subst c) (use icon_fails_entries [of False] in simp)
  show ?thesis
    using icon_fails_entries [of False] f
    by (simp add: export_all_components_def icon_fails_index m w Let_def)
qed

section \<open>Properties of the server\<close>

subsection \<open>Dispatch\<close>

lemma dict_get_obj:
  "dict_get (JObj kvs) k dflt = Inr (case map_of kvs k of Some v \<Rightarrow> v | None \<Rightarrow> dflt)"
  by (simp add: dict_get_def split: option.splits)

text \<open>
  The three envelopes of a \<open>tools/call\<close> request whose \<open>params\<close> are a dictionary
  (or absent) and whose tool name can be hashed: a name that is not registered gives
  the error envelope with code \<open>-32601\<close>; an exception raised by a registered tool
  gives the error envelope with code \<open>-32603\<close>; a result gives the result envelope
  with the result as \<open>content\<close>.
\<close>

lemma process_request_tools_call:
  assumes "map_of req (asc ''method'') = Some (JStr (asc ''tools/call''))"
    and "(case map_of req (asc ''params'') of Some p \<Rightarrow> p | None \<Rightarrow> JObj []) = JObj params"
    and "hashable (case map_of params (asc ''name'') of Some v \<Rightarrow> v | None \<Rightarrow> JNull)"
  shows "let ident = (case map_of req (asc ''id'') of Some v \<Rightarrow> v | None \<Rightarrow> JNull);
             tool_name = (case map_of params (asc ''name'') of Some v \<Rightarrow> v | None \<Rightarrow> JNull);
             args = (case map_of params (asc ''arguments'') of Some v \<Rightarrow> v | None \<Rightarrow> JObj []);
             arguments = (if json_truthy args then args else JObj [])
         in (tool_name \<notin> JStr ` set TOOLS \<longrightarrow>
               process_request env lower (JObj req) st
                 = (Inr (rpc_error ident (- 32601) (UnknownTool tool_name)), st))
          \<and> (tool_name \<in> JStr ` set TOOLS \<longrightarrow>
               (\<forall>e st'. process_tool_call env lower tool_name arguments st = (Inl e, st') \<longrightarrow>
                  process_request env lower (JObj req) st
                    = (Inr (rpc_error ident (- 32603) (InternalError e)), st'))
             \<and> (\<forall>result st'. process_tool_call env lower tool_name arguments st = (Inr result, st') \<longrightarrow>
                  process_request env lower (JObj req) st
                    = (Inr (rpc_result ident (Content result)), st')))"
proof -
  have neq: "JStr (asc ''tools/call'') \<noteq> JStr (asc ''tools/list'')" by (simp add: asc_def)
  show ?thesis
    using assms neq
    by (auto simp: process_request_def dict_get_obj Let_def)
qed


lemmas server_eval = process_request_def process_tool_call_def dict_get_def hashable_def TOOLS_def
  rpc_error_def rpc_result_def

lemma fresh_index:
  "ensure_index icon_fails ascii_lower False fresh_server = (Inr three_components, indexed_server)"
  by (simp add: ensure_index_def fresh_server_def indexed_server_def icon_fails_index)

lemma process_request_tools_call_examples:
  "process_request icon_fails ascii_lower
     (JObj [(asc ''method'', JStr (asc ''tools/call'')), (asc ''id'', JNum 7),
            (asc ''params'', JObj [(asc ''name'', JStr (asc ''no_such_tool''))])]) fresh_server
     = (Inr (rpc_error (JNum 7) (- 32601) (UnknownTool (JStr (asc ''no_such_tool'')))), fresh_server)
   \<and> process_request icon_fails ascii_lower
     (JObj [(asc ''method'', JStr (asc ''tools/call'')), (asc ''id'', JNum 8),
            (asc ''params'', JObj [(asc ''name'', JStr (asc ''search_components''))])]) fresh_server
     = (Inr (rpc_error (JNum 8) (- 32603) (InternalError (Raised KeyError))), fresh_server)
   \<and> process_request icon_fails ascii_lower
     (JObj [(asc ''method'', JStr (asc ''tools/call'')), (asc ''id'', JNum 9),
            (asc ''params'', JObj [(asc ''name'', JStr (asc ''list_components''))])]) fresh_server
     = (Inr (rpc_result (JNum 9) (Content (ComponentList three_components))), indexed_server)"
proof -
  let ?req = "\<lambda>n tool. [(asc ''method'', JStr (asc ''tools/call'')), (asc ''id'', JNum n),
            (asc ''params'', JObj [(asc ''name'', JStr tool)])]"
  have m: "map_of (?req n tool) (asc ''method'') = Some (JStr (asc ''tools/call''))"
    "(case map_of (?req n tool) (asc ''params'') of Some p \<Rightarrow> p | None \<Rightarrow> JObj [])
       = JObj [(asc ''name'', JStr tool)]"
    "map_of (?req n tool) (asc ''id'') = Some (JNum n)"
    "hashable (case map_of [(asc ''name'', JStr tool)] (asc ''name'') of Some v \<Rightarrow> v | None \<Rightarrow> JNull)"
    "map_of [(asc ''name'', JStr tool)] (asc ''arguments'') = None"
    "map_of [(asc ''name'', JStr tool)] (asc ''name'') = Some (JStr tool)"
    for n tool
    by (simp_all add: asc_def hashable_def)
  have unknown: "JStr (asc ''no_such_tool'') \<notin> JStr ` set TOOLS"
    by (simp add: TOOLS_def asc_def)
  have known: "JStr (asc ''search_components'') \<in> JStr ` set TOOLS"
    "JStr (asc ''list_components'') \<in> JStr ` set TOOLS"
    by (simp_all add: TOOLS_def)
  have raises: "process_tool_call icon_fails ascii_lower (JStr (asc ''search_components'')) (JObj [])
       fresh_server = (Inl (Raised KeyError), fresh_server)"
    by (simp add: process_tool_call_def handle_search_components_def asc_def)
  have lists: "process_tool_call icon_fails ascii_lower (JStr (asc ''list_components'')) (JObj [])
       fresh_server = (Inr (ComponentList three_components), indexed_server)"
    by (simp add: process_tool_call_def handle_list_components_def dict_get_def fresh_index)
  from process_request_tools_call [of "?req 7 (asc ''no_such_tool'')" "[(asc ''name'', JStr (asc ''no_such_tool''))]",
      OF m(1) m(2) m(4), of icon_fails ascii_lower fresh_server] unknown
  have one: "process_request icon_fails ascii_lower (JObj (?req 7 (asc ''no_such_tool''))) fresh_server
     = (Inr (rpc_error (JNum 7) (- 32601) (UnknownTool (JStr (asc ''no_such_tool'')))), fresh_server)"
    by (simp add: Let_def asc_def)
  from process_request_tools_call [of "?req 8 (asc ''search_components'')" "[(asc ''name'', JStr (asc ''search_components''))]",
      OF m(1) m(2) m(4), of icon_fails ascii_lower fresh_server] known(1) raises
  have two: "process_request icon_fails ascii_lower (JObj (?req 8 (asc ''search_components''))) fresh_server
     = (Inr (rpc_error (JNum 8) (- 32603) (InternalError (Raised KeyError))), fresh_server)"
    by (simp add: Let_def asc_def)
  from process_request_tools_call [of "?req 9 (asc ''list_components'')" "[(asc ''name'', JStr (asc ''list_components''))]",
      OF m(1) m(2) m(4), of icon_fails ascii_lower fresh_server] known(2) lists
  have three: "process_request icon_fails ascii_lower (JObj (?req 9 (asc ''list_components''))) fresh_server
     = (Inr (rpc_result (JNum 9) (Content (ComponentList three_components))), indexed_server)"
    by (simp add: Let_def asc_def)
  from one two three show ?thesis by simp
qed

text \<open>
  C9 at a \<open>tools/call\<close> request whose tool name is the empty list. The name is not
  registered, and the same request with the unregistered string \<open>no_such_tool\<close> gets
  the error envelope with code \<open>-32601\<close>; but the test \<open>tool_name not in TOOLS\<close>
  hashes the list, outside the \<open>try\<close>, and \<open>process_request\<close> raises \<open>TypeError\<close>
  to its caller instead of returning an envelope.
\<close>

theorem process_request_unhashable_name_raises:
  "process_request icon_fails ascii_lower
     (JObj [(asc ''method'', JStr (asc ''tools/call'')), (asc ''id'', JNum 1),
            (asc ''params'', JObj [(asc ''name'', JArr [])])]) fresh_server
     = (Inl (Raised TypeError), fresh_server)
   \<and> JArr [] \<notin> JStr ` set TOOLS
   \<and> process_request icon_fails ascii_lower
     (JObj [(asc ''method'', JStr (asc ''tools/call'')), (asc ''id'', JNum 1),
            (asc ''params'', JObj [(asc ''name'', JStr (asc ''no_such_tool''))])]) fresh_server
     = (Inr (rpc_error (JNum 1) (- 32601) (UnknownTool (JStr (asc ''no_such_tool'')))), fresh_server)"
  by (auto simp: server_eval asc_def)

subsection \<open>Lookup by name\<close>

lemma find_target_find:
  "find_target lower index (JStr nm) = Inr (find (\<lambda>c. lower (name c) = lower nm) index)"
  by (induction index) auto

lemma lookup_component_found:
  assumes "map_of args (asc ''name'') = Some (JStr nm)" "nm \<noteq> []"
    and "force = json_truthy (case map_of args (asc ''force'') of Some v \<Rightarrow> v | None \<Rightarrow> JBool False)"
    and "ensure_index env lower force st = (Inr index, st1)"
  shows "lookup_component env lower (JObj args) st =
     (case find (\<lambda>c. lower (name c) = lower nm) index of
        None \<Rightarrow> (Inr (Inl (ComponentNotFound (JStr nm))), st1)
      | Some target \<Rightarrow>
          (case cached_detail env (url target) force st1 of
             (Inl e, st2) \<Rightarrow> (Inl e, st2)
           | (Inr detail, st2) \<Rightarrow> (Inr (Inr (JStr nm, detail)), st2)))"
  using assms
  by (simp add: lookup_component_def dict_get_obj find_target_find split: option.splits)

lemma lookup_component_no_name:
  assumes "\<not> json_truthy (case map_of args (asc ''name'') of Some v \<Rightarrow> v | None \<Rightarrow> JNull)"
  shows "lookup_component env lower (JObj args) st = (Inr (Inl NameNotProvided), st)"
  using assms by (simp add: lookup_component_def dict_get_obj)

text \<open>
  C10, as the code has it. For a requested name that is a non-empty string, with
  \<open>index\<close> the catalog \<open>ensure_index\<close> returns: \<open>get_component\<close> and
  \<open>get_component_props\<close> return the error \<open>Component <name> not found\<close> exactly when no
  entry has the same lower-cased name; otherwise they serve, through the cache, the
  detail of the first entry that has it. A name that is missing, null or empty is
  answered with \<open>Component name not provided in arguments\<close> and never reaches the
  lookup (the counterexample below).
\<close>

theorem lookup_by_name:
  assumes "map_of args (asc ''name'') = Some (JStr nm)" "nm \<noteq> []"
    and "force = json_truthy (case map_of args (asc ''force'') of Some v \<Rightarrow> v | None \<Rightarrow> JBool False)"
    and "ensure_index env lower force st = (Inr index, st1)"
  shows "((fst (handle_get_component env lower (JObj args) st)
            = Inr (ErrorResult (ComponentNotFound (JStr nm))))
          = (\<forall>c\<in>set index. lower (name c) \<noteq> lower nm))
       \<and> ((fst (handle_get_component_props env lower (JObj args) st)
            = Inr (ErrorResult (ComponentNotFound (JStr nm))))
          = (\<forall>c\<in>set index. lower (name c) \<noteq> lower nm))
       \<and> ((\<exists>c\<in>set index. lower (name c) = lower nm) \<longrightarrow>
            (\<exists>i<length index. lower (name (index ! i)) = lower nm
               \<and> (\<forall>j<i. lower (name (index ! j)) \<noteq> lower nm)
               \<and> handle_get_component env lower (JObj args) st
                   = (case cached_detail env (url (index ! i)) force st1 of
                        (Inl e, st2) \<Rightarrow> (Inl e, st2)
                      | (Inr detail, st2) \<Rightarrow> (Inr (DetailResult detail), st2))
               \<and> handle_get_component_props env lower (JObj args) st
                   = (case cached_detail env (url (index ! i)) force st1 of
                        (Inl e, st2) \<Rightarrow> (Inl e, st2)
                      | (Inr detail, st2) \<Rightarrow>
                          (Inr (PropsResult (JStr nm) (props_flat detail)
                                  (length (props_flat detail))), st2))))
       \<and> (\<not> json_truthy (case map_of args0 (asc ''name'') of Some v \<Rightarrow> v | None \<Rightarrow> JNull) \<longrightarrow>
            handle_get_component env0 lower (JObj args0) st0 = (Inr (ErrorResult NameNotProvided), st0)
            \<and> handle_get_component_props env0 lower (JObj args0) st0
                = (Inr (ErrorResult NameNotProvided), st0))"
proof -
  have missing: "\<not> json_truthy (case map_of args0 (asc ''name'') of Some v \<Rightarrow> v | None \<Rightarrow> JNull) \<longrightarrow>
            handle_get_component env0 lower (JObj args0) st0 = (Inr (ErrorResult NameNotProvided), st0)
            \<and> handle_get_component_props env0 lower (JObj args0) st0
                = (Inr (ErrorResult NameNotProvided), st0)"
    using lookup_component_no_name[of args0 env0 lower st0]
    by (simp add: handle_get_component_def handle_get_component_props_def)
  show ?thesis
  proof (cases "find (\<lambda>c. lower (name c) = lower nm) index")
    case None
    then have no: "\<forall>c\<in>set index. lower (name c) \<noteq> lower nm"
      by (auto simp: find_None_iff)
    have "lookup_component env lower (JObj args) st = (Inr (Inl (ComponentNotFound (JStr nm))), st1)"
      using lookup_component_found[OF assms] None by simp
    then have "fst (handle_get_component env lower (JObj args) st)
                 = Inr (ErrorResult (ComponentNotFound (JStr nm)))"
      "fst (handle_get_component_props env lower (JObj args) st)
                 = Inr (ErrorResult (ComponentNotFound (JStr nm)))"
      by (simp_all add: handle_get_component_def handle_get_component_props_def)
    then show ?thesis using no missing by blast
  next
    case (Some target)
    then obtain i where i: "i < length index" "lower (name (index ! i)) = lower nm"
      "target = index ! i" "\<forall>j<i. lower (name (index ! j)) \<noteq> lower nm"
      by (auto simp: find_Some_iff)
    have l: "lookup_component env lower (JObj args) st =
            (case cached_detail env (url (index ! i)) force st1 of
               (Inl e, st2) \<Rightarrow> (Inl e, st2)
             | (Inr detail, st2) \<Rightarrow> (Inr (Inr (JStr nm, detail)), st2))"
      using lookup_component_found[OF assms] Some i(3) by simp
    obtain res st2 where c: "cached_detail env (url (index ! i)) force st1 = (res, st2)"
      by (cases "cached_detail env (url (index ! i)) force st1")
    have g: "handle_get_component env lower (JObj args) st
               = (case cached_detail env (url (index ! i)) force st1 of
                    (Inl e, st2) \<Rightarrow> (Inl e, st2)
                  | (Inr detail, st2) \<Rightarrow> (Inr (DetailResult detail), st2))"
      by (cases res) (simp_all add: handle_get_component_def l c)
    have p: "handle_get_component_props env lower (JObj args) st
               = (case cached_detail env (url (index ! i)) force st1 of
                    (Inl e, st2) \<Rightarrow> (Inl e, st2)
                  | (Inr detail, st2) \<Rightarrow>
                      (Inr (PropsResult (JStr nm) (props_flat detail)
                              (length (props_flat detail))), st2))"
      by (cases res) (simp_all add: handle_get_component_props_def l c)
    have ng: "fst (handle_get_component env lower (JObj args) st)
                \<noteq> Inr (ErrorResult (ComponentNotFound (JStr nm)))"
      by (cases res) (simp_all add: g c)
    have np: "fst (handle_get_component_props env lower (JObj args) st)
                \<noteq> Inr (ErrorResult (ComponentNotFound (JStr nm)))"
      by (cases res) (simp_all add: p c)
    have hit: "\<not> (\<forall>c\<in>set index. lower (name c) \<noteq> lower nm)"
      using i(1,2) by (auto intro: nth_mem)
    have third: "\<exists>i<length index. lower (name (index ! i)) = lower nm
               \<and> (\<forall>j<i. lower (name (index ! j)) \<noteq> lower nm)
               \<and> handle_get_component env lower (JObj args) st
                   = (case cached_detail env (url (index ! i)) force st1 of
                        (Inl e, st2) \<Rightarrow> (Inl e, st2)
                      | (Inr detail, st2) \<Rightarrow> (Inr (DetailResult detail), st2))
               \<and> handle_get_component_props env lower (JObj args) st
                   = (case cached_detail env (url (index ! i)) force st1 of
                        (Inl e, st2) \<Rightarrow> (Inl e, st2)
                      | (Inr detail, st2) \<Rightarrow>
                          (Inr (PropsResult (JStr nm) (props_flat detail)
                                  (length (props_flat detail))), st2))"
      using i(1,2,4) g p by blast
    show ?thesis using ng np hit third missing by blast
  qed
qed

lemma three_components_keys:
  "ascii_lower (name (three_components ! 0)) = asc ''button''"
  "ascii_lower (name (three_components ! 1)) = asc ''icon''"
  "ascii_lower (name (three_components ! 2)) = asc ''input''"
  "set three_components = {three_components ! 0, three_components ! 1, three_components ! 2}"
  by (simp_all add: three_components_def ascii_lower_def asc_def)

theorem lookup_by_name_witness:
  "ensure_index icon_fails ascii_lower False fresh_server = (Inr three_components, indexed_server)
   \<and> ascii_lower (name (three_components ! 0)) = ascii_lower (asc ''BUTTON'')
   \<and> fst (handle_get_component icon_fails ascii_lower
            (JObj [(asc ''name'', JStr (asc ''BUTTON''))]) fresh_server)
       \<noteq> Inr (ErrorResult (ComponentNotFound (JStr (asc ''BUTTON''))))
   \<and> fst (handle_get_component_props icon_fails ascii_lower
            (JObj [(asc ''name'', JStr (asc ''BUTTON''))]) fresh_server)
       \<noteq> Inr (ErrorResult (ComponentNotFound (JStr (asc ''BUTTON''))))
   \<and> fst (handle_get_component icon_fails ascii_lower
            (JObj [(asc ''name'', JStr (asc ''table''))]) fresh_server)
       = Inr (ErrorResult (ComponentNotFound (JStr (asc ''table''))))
   \<and> fst (handle_get_component_props icon_fails ascii_lower
            (JObj [(asc ''name'', JStr (asc ''table''))]) fresh_server)
       = Inr (ErrorResult (ComponentNotFound (JStr (asc ''table''))))
   \<and> handle_get_component icon_fails ascii_lower (JObj []) fresh_server
       = (Inr (ErrorResult NameNotProvided), fresh_server)
   \<and> handle_get_component_props icon_fails ascii_lower (JObj [(asc ''name'', JNull)]) fresh_server
       = (Inr (ErrorResult NameNotProvided), fresh_server)"
proof -
  have a: "map_of [(asc ''name'', JStr s)] (asc ''name'') = Some (JStr s)"
    "False = json_truthy (case map_of [(asc ''name'', JStr s)] (asc ''force'') of
                            Some v \<Rightarrow> v | None \<Rightarrow> JBool False)" for s
    by (simp_all add: asc_def)
  have ne: "asc ''BUTTON'' \<noteq> []" "asc ''table'' \<noteq> []" by (simp_all add: asc_def)
  have up: "ascii_lower (asc ''BUTTON'') = asc ''button''" "ascii_lower (asc ''table'') = asc ''table''"
    by (simp_all add: ascii_lower_def asc_def)
  have hit: "\<not> (\<forall>c\<in>set three_components. ascii_lower (name c) \<noteq> ascii_lower (asc ''BUTTON''))"
    by (simp add: three_components_def ascii_lower_def asc_def)
  have miss: "\<forall>c\<in>set three_components. ascii_lower (name c) \<noteq> ascii_lower (asc ''table'')"
    by (simp add: three_components_def ascii_lower_def asc_def)
  have none: "\<not> json_truthy (case map_of [] (asc ''name'') of Some v \<Rightarrow> v | None \<Rightarrow> JNull)"
    "\<not> json_truthy (case map_of [(asc ''name'', JNull)] (asc ''name'') of
                        Some v \<Rightarrow> v | None \<Rightarrow> JNull)"
    by simp_all
  from lookup_by_name [OF a(1) ne(1) a(2) fresh_index, of "[]" icon_fails fresh_server] hit none(1)
  have one: "fst (handle_get_component icon_fails ascii_lower
            (JObj [(asc ''name'', JStr (asc ''BUTTON''))]) fresh_server)
       \<noteq> Inr (ErrorResult (ComponentNotFound (JStr (asc ''BUTTON''))))"
    "fst (handle_get_component_props icon_fails ascii_lower
            (JObj [(asc ''name'', JStr (asc ''BUTTON''))]) fresh_server)
       \<noteq> Inr (ErrorResult (ComponentNotFound (JStr (asc ''BUTTON''))))"
    "handle_get_component icon_fails ascii_lower (JObj []) fresh_server
       = (Inr (ErrorResult NameNotProvided), fresh_server)"
    by blast+
  from lookup_by_name [OF a(1) ne(2) a(2) fresh_index, of "[(asc ''name'', JNull)]" icon_fails
      fresh_server] miss none(2)
  have two: "fst (handle_get_component icon_fails ascii_lower
            (JObj [(asc ''name'', JStr (asc ''table''))]) fresh_server)
       = Inr (ErrorResult (ComponentNotFound (JStr (asc ''table''))))"
    "fst (handle_get_component_props icon_fails ascii_lower
            (JObj [(asc ''name'', JStr (asc ''table''))]) fresh_server)
       = Inr (ErrorResult (ComponentNotFound (JStr (asc ''table''))))"
    "handle_get_component_props icon_fails ascii_lower (JObj [(asc ''name'', JNull)]) fresh_server
       = (Inr (ErrorResult NameNotProvided), fresh_server)"
    by blast+
  from one two fresh_index three_components_keys(1) up(1) show ?thesis by simp
qed

theorem lookup_empty_name_counterexample:
  "fst (handle_get_component icon_fails ascii_lower (JObj [(asc ''name'', JStr [])]) fresh_server)
     = Inr (ErrorResult NameNotProvided)
   \<and> fst (handle_get_component_props icon_fails ascii_lower (JObj [(asc ''name'', JStr [])]) fresh_server)
     = Inr (ErrorResult NameNotProvided)
   \<and> build_component_index icon_fails ascii_lower False = Inr three_components
   \<and> length three_components = 3
   \<and> ascii_lower (name (three_components ! 0)) \<noteq> ascii_lower []
   \<and> ascii_lower (name (three_components ! 1)) \<noteq> ascii_lower []
   \<and> ascii_lower (name (three_components ! 2)) \<noteq> ascii_lower []"
  by (simp add: handle_get_component_def handle_get_component_props_def lookup_component_def
      dict_get_def icon_fails_index three_components_def ascii_lower_def asc_def)

end
